theory Spec2Isabelle
  imports Main
begin

section \<open>Texts\<close>

text \<open>
  A Python \<open>str\<close> is modelled as a \<open>string\<close>: a list of characters, one per code point,
  so that \<open>length\<close> is Python's \<open>len\<close>. Characters range over the code points below 256.
  In that range \<open>str.isspace\<close> holds of exactly the twelve characters below, and
  \<open>str.strip()\<close> removes them from both ends.
\<close>

definition whitespace_chars :: "char list" where
  "whitespace_chars =
     [CHR 0x09, CHR 0x0A, CHR 0x0B, CHR 0x0C, CHR 0x0D, CHR 0x1C, CHR 0x1D, CHR 0x1E,
      CHR 0x1F, CHR 0x20, CHR 0x85, CHR 0xA0]"

definition isspace :: "char \<Rightarrow> bool" where
  "isspace c = (c \<in> set whitespace_chars)"

definition lstrip :: "string \<Rightarrow> string" where
  "lstrip s = dropWhile isspace s"

definition rstrip :: "string \<Rightarrow> string" where
  "rstrip s = rev (dropWhile isspace (rev s))"

definition strip :: "string \<Rightarrow> string" where
  "strip s = rstrip (lstrip s)"

text \<open>\<open>s.startswith(p)\<close>, and the slice \<open>s[len(p):]\<close> as \<open>drop (length p) s\<close>.\<close>

definition startswith :: "string \<Rightarrow> string \<Rightarrow> bool" where
  "startswith s p = (take (length p) s = p)"

text \<open>
  \<open>str.splitlines()\<close> cuts a text at its line boundaries and drops them: below code point
  256 these are the eight characters of \<open>linebreak_chars\<close>, and a carriage return directly
  followed by a line feed is one boundary. A boundary at the very end of the text does not
  open a further, empty line. \<open>splitlines_from cur s\<close> is the state of the scan: \<open>cur\<close> is
  the line read so far and \<open>s\<close> the text still to read.
\<close>

definition linebreak_chars :: "char list" where
  "linebreak_chars = [CHR 0x0A, CHR 0x0B, CHR 0x0C, CHR 0x0D, CHR 0x1C, CHR 0x1D, CHR 0x1E, CHR 0x85]"

definition is_linebreak :: "char \<Rightarrow> bool" where
  "is_linebreak c = (c \<in> set linebreak_chars)"

fun splitlines_from :: "string \<Rightarrow> string \<Rightarrow> string list" where
  "splitlines_from cur [] = (if cur = [] then [] else [cur])"
| "splitlines_from cur (c # s) =
     (if is_linebreak c
      then cur # splitlines_from [] (if c = CHR 0x0D \<and> s \<noteq> [] \<and> hd s = CHR 0x0A then tl s else s)
      else splitlines_from (cur @ [c]) s)"

definition splitlines :: "string \<Rightarrow> string list" where
  "splitlines s = splitlines_from [] s"

text \<open>
  \<open>s.split(sep)\<close> for a separator of one character: the pieces between the separators,
  always at least one piece. \<open>sep.join(xs)\<close> is \<open>join sep xs\<close>.
\<close>

fun split_from :: "string \<Rightarrow> char \<Rightarrow> string \<Rightarrow> string list" where
  "split_from cur sep [] = [cur]"
| "split_from cur sep (c # s) =
     (if c = sep then cur # split_from [] sep s else split_from (cur @ [c]) sep s)"

definition split_str :: "string \<Rightarrow> char \<Rightarrow> string list" where
  "split_str s sep = split_from [] sep s"

fun join :: "string \<Rightarrow> string list \<Rightarrow> string" where
  "join sep [] = []"
| "join sep [x] = x"
| "join sep (x # y # ys) = x @ sep @ join sep (y # ys)"

text \<open>
  \<open>str.title()\<close>: a cased character that follows a cased character is lowered, any other
  is raised. Only the ASCII letters are taken as cased: the function is applied to a role,
  which validation restricts to two lower-case ASCII words.
\<close>

definition ascii_lowercase :: string where
  "ascii_lowercase = ''abcdefghijklmnopqrstuvwxyz''"

definition ascii_uppercase :: string where
  "ascii_uppercase = ''ABCDEFGHIJKLMNOPQRSTUVWXYZ''"

definition is_cased :: "char \<Rightarrow> bool" where
  "is_cased c = (c \<in> set (ascii_lowercase @ ascii_uppercase))"

definition upper_char :: "char \<Rightarrow> char" where
  "upper_char c = (case map_of (zip ascii_lowercase ascii_uppercase) c of Some u \<Rightarrow> u | None \<Rightarrow> c)"

definition lower_char :: "char \<Rightarrow> char" where
  "lower_char c = (case map_of (zip ascii_uppercase ascii_lowercase) c of Some l \<Rightarrow> l | None \<Rightarrow> c)"

fun title_from :: "bool \<Rightarrow> string \<Rightarrow> string" where
  "title_from previous_is_cased [] = []"
| "title_from previous_is_cased (c # s) =
     (if previous_is_cased then lower_char c else upper_char c) # title_from (is_cased c) s"

definition title :: "string \<Rightarrow> string" where
  "title s = title_from False s"

section \<open>Reply cleanup (\<open>SecureLlamaClient.clean_reply\<close>)\<close>

definition clean_reply :: "string \<Rightarrow> string" where
  "clean_reply reply =
     (if startswith reply ''User:'' then strip (drop (length ''User:'') reply)
      else if startswith reply ''Scammer:'' then strip (drop (length ''Scammer:'') reply)
      else strip reply)"

section \<open>Configuration (\<open>Config\<close>)\<close>

text \<open>
  The settings are read from the environment once, at start-up; each is a parameter of the
  model, and \<open>default_config\<close> holds the defaults written in the source.
\<close>

record config =
  API_KEY :: string
  MAX_CONVERSATION_LENGTH :: int
  MAX_TEXT_LENGTH :: int
  RATE_LIMIT_REQUESTS :: int
  RATE_LIMIT_WINDOW :: int

definition default_config :: config where
  "default_config = \<lparr>API_KEY = ''your-secure-api-key-here'', MAX_CONVERSATION_LENGTH = 5000,
     MAX_TEXT_LENGTH = 2000, RATE_LIMIT_REQUESTS = 10, RATE_LIMIT_WINDOW = 60\<rparr>"

section \<open>Rate limiter (\<open>RateLimiter\<close>)\<close>

text \<open>
  A \<open>datetime\<close> is an instant with microsecond resolution: a timestamp is the integer
  number of microseconds since some origin, the difference of two timestamps is the
  \<open>timedelta\<close> between them, and \<open>timedelta(seconds=n)\<close> is \<open>n * 1000000\<close> microseconds.
  The reading of the clock, \<open>datetime.now()\<close>, is the parameter \<open>now\<close>. The configured
  window is taken within the range of \<open>timedelta\<close> (less than a thousand million days),
  outside of which the constructor raises.

  \<open>self.requests\<close> is a \<open>defaultdict(list)\<close>: a dictionary from client address to the list
  of recorded timestamps, where reading a missing key gives the empty list.
\<close>

type_synonym timestamp = int

type_synonym rate_limiter = "string \<rightharpoonup> timestamp list"

definition timedelta_seconds :: "int \<Rightarrow> int" where
  "timedelta_seconds n = n * 1000000"

definition requests_of :: "rate_limiter \<Rightarrow> string \<Rightarrow> timestamp list" where
  "requests_of rl client_ip = (case rl client_ip of None \<Rightarrow> [] | Some ts \<Rightarrow> ts)"

text \<open>
  \<open>is_allowed\<close> returns its verdict and the updated dictionary. The first assignment stores
  the filtered list under \<open>client_ip\<close>; the test and the \<open>append\<close> then read that entry.
\<close>

definition is_allowed :: "config \<Rightarrow> timestamp \<Rightarrow> rate_limiter \<Rightarrow> string \<Rightarrow> bool \<times> rate_limiter" where
  "is_allowed cfg now rl client_ip =
     (let kept = filter (\<lambda>req_time. now - req_time < timedelta_seconds (RATE_LIMIT_WINDOW cfg))
                   (requests_of rl client_ip);
          rl1 = rl(client_ip \<mapsto> kept)
      in if RATE_LIMIT_REQUESTS cfg \<le> int (length (requests_of rl1 client_ip)) then (False, rl1)
         else (True, rl1(client_ip \<mapsto> requests_of rl1 client_ip @ [now])))"

text \<open>
  The admit operation as the specification words it, to compare with \<open>is_allowed\<close>: a
  recorded timestamp is evicted when it is older than \<open>now - window\<close>, so one that is
  exactly one window old stays.
\<close>

definition admit_as_specified :: "config \<Rightarrow> timestamp \<Rightarrow> rate_limiter \<Rightarrow> string \<Rightarrow> bool \<times> rate_limiter" where
  "admit_as_specified cfg now rl client_ip =
     (let remaining = filter (\<lambda>t. \<not> t < now - timedelta_seconds (RATE_LIMIT_WINDOW cfg))
                        (requests_of rl client_ip)
      in if RATE_LIMIT_REQUESTS cfg \<le> int (length remaining) then (False, rl(client_ip \<mapsto> remaining))
         else (True, rl(client_ip \<mapsto> remaining @ [now])))"

text \<open>
  A history of the limiter: the calls \<open>is_allowed(client_ip)\<close> made one after the other,
  each with the time the clock showed, from a given dictionary. \<open>run\<close> returns the verdicts
  in order and the dictionary left behind; \<open>admitted_times\<close> picks the times of the calls of
  one client that were admitted.
\<close>

fun run :: "config \<Rightarrow> (string \<times> timestamp) list \<Rightarrow> rate_limiter \<Rightarrow> bool list \<times> rate_limiter" where
  "run cfg [] rl = ([], rl)"
| "run cfg ((client_ip, now) # calls) rl =
     (case is_allowed cfg now rl client_ip of
        (ok, rl1) \<Rightarrow> (case run cfg calls rl1 of (oks, rl2) \<Rightarrow> (ok # oks, rl2)))"

definition admitted_times :: "string \<Rightarrow> (string \<times> timestamp) list \<Rightarrow> bool list \<Rightarrow> timestamp list" where
  "admitted_times client_ip calls oks =
     map (\<lambda>(call, ok). snd call) (filter (\<lambda>(call, ok). fst call = client_ip \<and> ok) (zip calls oks))"

section \<open>Request models (\<open>Message\<close>, \<open>ConversationRequest\<close>, \<open>EmailInput\<close>)\<close>

text \<open>
  The request bodies are pydantic models. A field is validated in this order: the
  constraints of its \<open>Field(...)\<close> first (on the value as received), and only when they
  hold the function decorated with \<open>field_validator\<close>, whose return value becomes the
  field. A failure is one of pydantic's error kinds; a \<open>ValueError\<close> raised by a validator
  function is reported with its message. The kinds that occur are listed in
  \<open>validation_error\<close>, under pydantic's names for them: \<open>Value_error msg\<close> is a
  \<open>ValueError\<close> with message \<open>msg\<close>, and \<open>Value_error_total n\<close> stands for the
  \<open>ValueError\<close> whose message is "Total conversation length cannot exceed n characters".

  The input of validation is the decoded JSON body: a message with a text for its role
  and a text for its content, a conversation as a list of messages, an e-mail as a text.
\<close>

datatype validation_error =
    Literal_error
  | String_too_short
  | String_too_long
  | Value_error string
  | Value_error_total int
  | Too_short
  | Too_long

record message =
  role :: string
  content :: string

text \<open>\<open>role: Literal["scammer", "user"]\<close>.\<close>

definition validate_role :: "string \<Rightarrow> validation_error + string" where
  "validate_role r = (if r = ''scammer'' \<or> r = ''user'' then Inr r else Inl Literal_error)"

text \<open>
  \<open>content: str = Field(..., min_length=1, max_length=1000)\<close>, then the validator
  \<open>content_must_not_be_empty\<close>.
\<close>

definition content_must_not_be_empty :: "string \<Rightarrow> validation_error + string" where
  "content_must_not_be_empty v =
     (if strip v = [] then Inl (Value_error ''Content cannot be empty'') else Inr (strip v))"

definition validate_content :: "string \<Rightarrow> validation_error + string" where
  "validate_content v =
     (if length v < 1 then Inl String_too_short
      else if 1000 < length v then Inl String_too_long
      else content_must_not_be_empty v)"

text \<open>A model is valid when all its fields are; otherwise the errors of its fields are reported.\<close>

fun errors_of :: "validation_error + 'a \<Rightarrow> validation_error list" where
  "errors_of (Inl e) = [e]"
| "errors_of (Inr _) = []"

definition validate_Message :: "message \<Rightarrow> validation_error list + message" where
  "validate_Message m =
     (case (validate_role (role m), validate_content (content m)) of
        (Inr r, Inr c) \<Rightarrow> Inr \<lparr>role = r, content = c\<rparr>
      | (er, ec) \<Rightarrow> Inl (errors_of er @ errors_of ec))"

text \<open>
  \<open>conversation: List[Message] = Field(..., min_length=1, max_length=50)\<close>: the items are
  validated one by one, then the validator \<open>validate_conversation_length\<close> runs on the list
  of validated messages, whose contents are the trimmed ones.
\<close>

fun validate_items :: "message list \<Rightarrow> validation_error list \<times> message list" where
  "validate_items [] = ([], [])"
| "validate_items (m # ms) =
     (case validate_items ms of
        (errs, vs) \<Rightarrow>
          (case validate_Message m of
             Inl es \<Rightarrow> (es @ errs, vs)
           | Inr v \<Rightarrow> (errs, v # vs)))"

definition validate_conversation_length :: "config \<Rightarrow> message list \<Rightarrow> validation_error + message list" where
  "validate_conversation_length cfg v =
     (let total_length = (\<Sum>msg\<leftarrow>v. int (length (content msg)))
      in if MAX_CONVERSATION_LENGTH cfg < total_length
         then Inl (Value_error_total (MAX_CONVERSATION_LENGTH cfg))
         else Inr v)"

definition validate_ConversationRequest :: "config \<Rightarrow> message list \<Rightarrow> validation_error list + message list" where
  "validate_ConversationRequest cfg conversation =
     (if 50 < length conversation then Inl [Too_long]
      else case validate_items conversation of
        (errs, v) \<Rightarrow>
          if errs \<noteq> [] then Inl errs
          else if length v < 1 then Inl [Too_short]
          else (case validate_conversation_length cfg v of
                  Inl e \<Rightarrow> Inl [e]
                | Inr v' \<Rightarrow> Inr v'))"

text \<open>
  \<open>text: str = Field(..., min_length=1, max_length=config.MAX_TEXT_LENGTH)\<close>, then the
  validator \<open>text_must_not_be_empty\<close>.
\<close>

definition text_must_not_be_empty :: "string \<Rightarrow> validation_error + string" where
  "text_must_not_be_empty v =
     (if strip v = [] then Inl (Value_error ''Text cannot be empty'') else Inr (strip v))"

definition validate_EmailInput :: "config \<Rightarrow> string \<Rightarrow> validation_error list + string" where
  "validate_EmailInput cfg v =
     (if length v < 1 then Inl [String_too_short]
      else if MAX_TEXT_LENGTH cfg < int (length v) then Inl [String_too_long]
      else (case text_must_not_be_empty v of Inl e \<Rightarrow> Inl [e] | Inr t \<Rightarrow> Inr t))"

text \<open>
  The bounds under which a conversation is accepted, for the statement of the theorem
  about \<open>validate_ConversationRequest\<close>: between 1 and 50 messages, each with one of the two
  roles, a content of at most 1000 characters as received and not empty once trimmed, and
  trimmed contents whose lengths add up to at most the configured maximum.
\<close>

definition within_bounds :: "config \<Rightarrow> message list \<Rightarrow> bool" where
  "within_bounds cfg conversation \<longleftrightarrow>
     1 \<le> length conversation \<and> length conversation \<le> 50
     \<and> list_all (\<lambda>m. (role m = ''scammer'' \<or> role m = ''user'')
                      \<and> length (content m) \<le> 1000 \<and> strip (content m) \<noteq> []) conversation
     \<and> (\<Sum>m\<leftarrow>conversation. int (length (strip (content m)))) \<le> MAX_CONVERSATION_LENGTH cfg"

section \<open>Exceptions and responses\<close>

text \<open>
  The exceptions that the handlers raise or meet: \<open>HTTPException(status_code, detail)\<close>,
  the \<open>ValueError\<close> of a backend client, the \<open>IndexError\<close> of a list access out of range,
  and the \<open>RequestValidationError\<close> with which the framework answers a body that fails
  validation. A computation that may raise returns \<open>Inl\<close> of the exception.
\<close>

datatype exn =
    HTTPException nat string
  | ValueError string
  | IndexError
  | RequestValidationError "validation_error list"

record classification_response =
  label :: string
  tags :: "string list"
  justification :: string

section \<open>Parsing the classification (\<open>classify_email\<close>, after the backend call)\<close>

text \<open>
  The part of \<open>classify_email\<close> that turns the text returned by the backend into the
  response, inside the \<open>try\<close> block. \<open>lines ! 0\<close> and \<open>lines ! 1\<close> are read only under
  \<open>2 \<le> length lines\<close>; \<open>labels[0]\<close> raises \<open>IndexError\<close> on an empty list.
\<close>

definition classify_email_parse :: "string \<Rightarrow> exn + classification_response" where
  "classify_email_parse output =
     (if output = [] then Inl (HTTPException 500 ''Failed to generate classification'')
      else
        let lines = splitlines output
        in if length lines < 2
           then Inl (HTTPException 500 ''Invalid classification response format'')
           else
             let labels = split_str (lines ! 0) (CHR '','')
             in (case labels of
                   [] \<Rightarrow> Inl IndexError
                 | first # _ \<Rightarrow>
                     Inr \<lparr>label = strip first,
                          tags = (if 1 < length labels then map strip (drop 1 labels) else []),
                          justification = strip (lines ! 1)\<rparr>))"

section \<open>Backend clients (\<open>backend.generative\<close>)\<close>

text \<open>
  Each client posts the conversation text, wrapped in its fixed prompt, to a hosted chat
  model. That HTTP exchange is the parameter \<open>api\<close>: for the conversation text it gives
  \<open>Inr\<close> of the content of the first choice, or \<open>Inl\<close> of the message of the
  \<open>ValueError\<close> that the client raises (time-out, connection error, HTTP error, unexpected
  payload). \<open>predict_reply\<close> is \<open>generate_reply\<close> of \<open>mistral.py\<close> under the name the
  server imports it by; \<open>generate_reply\<close> is the one of \<open>llama_3_2_3b_instruct.py\<close>.
\<close>

type_synonym chat_api = "string \<Rightarrow> string + string"

definition predict_reply :: "chat_api \<Rightarrow> string \<Rightarrow> exn + string" where
  "predict_reply api convo_text =
     (if convo_text = [] \<or> strip convo_text = []
      then Inl (ValueError ''Conversation text cannot be empty'')
      else (case api convo_text of
              Inl msg \<Rightarrow> Inl (ValueError msg)
            | Inr answer \<Rightarrow> Inr (strip answer)))"

definition generate_reply :: "chat_api \<Rightarrow> string \<Rightarrow> exn + string" where
  "generate_reply api convo_text =
     (if convo_text = [] \<or> strip convo_text = []
      then Inl (ValueError ''Conversation text cannot be empty'')
      else (case api convo_text of
              Inl msg \<Rightarrow> Inl (ValueError msg)
            | Inr answer \<Rightarrow> Inr (clean_reply answer)))"

section \<open>Endpoints (\<open>classify_email\<close>, \<open>generate_reply_api\<close>)\<close>

text \<open>
  What a request can change: the dictionary of the rate limiter, and the log of the calls
  made to a backend client (the text each was called with), by which a theorem can say
  that no call was made.
\<close>

record world =
  requests :: rate_limiter
  backend_calls :: "string list"

record reply_response =
  reply :: string
  conversation_length :: nat

text \<open>
  An endpoint runs its \<open>try\<close> block; whatever exception the block raises, the
  \<open>HTTPException\<close>s it raises itself included, is caught by \<open>except Exception\<close> and
  replaced by an \<open>HTTPException\<close> of status 500.
\<close>

definition classify_email_try :: "chat_api \<Rightarrow> string \<Rightarrow> exn + classification_response" where
  "classify_email_try api text =
     (case predict_reply api text of
        Inl e \<Rightarrow> Inl e
      | Inr output \<Rightarrow> classify_email_parse output)"

definition classify_email :: "chat_api \<Rightarrow> string \<Rightarrow> world \<Rightarrow> (exn + classification_response) \<times> world" where
  "classify_email api text w =
     ((case classify_email_try api text of
         Inl e \<Rightarrow> Inl (HTTPException 500 ''Failed to process classification request'')
       | Inr response \<Rightarrow> Inr response),
      w\<lparr>backend_calls := backend_calls w @ [text]\<rparr>)"

definition conversation_text :: "message list \<Rightarrow> string" where
  "conversation_text conversation =
     join [CHR 0x0A] (map (\<lambda>message. title (role message) @ '': '' @ content message) conversation)"

definition generate_reply_api_try :: "chat_api \<Rightarrow> message list \<Rightarrow> exn + reply_response" where
  "generate_reply_api_try api conversation =
     (case generate_reply api (conversation_text conversation) of
        Inl e \<Rightarrow> Inl e
      | Inr answer \<Rightarrow>
          if answer = [] then Inl (HTTPException 500 ''Failed to generate reply'')
          else Inr \<lparr>reply = strip answer,
                    conversation_length = length (conversation_text conversation)\<rparr>)"

definition generate_reply_api :: "chat_api \<Rightarrow> message list \<Rightarrow> world \<Rightarrow> (exn + reply_response) \<times> world" where
  "generate_reply_api api conversation w =
     ((case generate_reply_api_try api conversation of
         Inl e \<Rightarrow> Inl (HTTPException 500 ''Failed to process reply generation request'')
       | Inr response \<Rightarrow> Inr response),
      w\<lparr>backend_calls := backend_calls w @ [conversation_text conversation]\<rparr>)"

section \<open>Requests and their dependencies (\<open>verify_api_key\<close>, \<open>check_rate_limit\<close>)\<close>

text \<open>
  A request that carries a bearer credential: the credential, the address of the client when
  the server knows it, and the decoded body. (A request without the header is answered by
  the framework's \<open>HTTPBearer\<close> before any code of the server runs.)
\<close>

record 'b request =
  credentials :: string
  client :: "string option"
  body :: 'b

definition verify_api_key :: "config \<Rightarrow> string \<Rightarrow> exn + string" where
  "verify_api_key cfg creds =
     (if creds \<noteq> API_KEY cfg then Inl (HTTPException 401 ''Invalid API key'') else Inr creds)"

definition client_host :: "string option \<Rightarrow> string" where
  "client_host c = (case c of None \<Rightarrow> ''127.0.0.1'' | Some host \<Rightarrow> host)"

definition check_rate_limit :: "config \<Rightarrow> timestamp \<Rightarrow> string option \<Rightarrow> world \<Rightarrow> (exn + unit) \<times> world" where
  "check_rate_limit cfg now c w =
     (case is_allowed cfg now (requests w) (client_host c) of
        (allowed, rl) \<Rightarrow>
          (if \<not> allowed then Inl (HTTPException 429 ''Rate limit exceeded. Please try again later.'')
           else Inr (),
           w\<lparr>requests := rl\<rparr>))"

text \<open>
  How the framework serves a route declared with the two dependencies and a body model: it
  runs the dependencies in the order of the parameters, \<open>verify_api_key\<close> then
  \<open>check_rate_limit\<close>, and an exception of either ends the request; it then validates the
  body, answering a body that fails with a \<open>RequestValidationError\<close>; only then does it call
  the endpoint, with the validated body.
\<close>

definition dispatch ::
  "config \<Rightarrow> timestamp \<Rightarrow> ('b \<Rightarrow> validation_error list + 'c) \<Rightarrow> ('c \<Rightarrow> world \<Rightarrow> (exn + 'a) \<times> world)
     \<Rightarrow> 'b request \<Rightarrow> world \<Rightarrow> (exn + 'a) \<times> world" where
  "dispatch cfg now validate endpoint req w =
     (case verify_api_key cfg (credentials req) of
        Inl e \<Rightarrow> (Inl e, w)
      | Inr _ \<Rightarrow>
          (case check_rate_limit cfg now (client req) w of
             (Inl e, w1) \<Rightarrow> (Inl e, w1)
           | (Inr _, w1) \<Rightarrow>
               (case validate (body req) of
                  Inl errs \<Rightarrow> (Inl (RequestValidationError errs), w1)
                | Inr data \<Rightarrow> endpoint data w1)))"

text \<open>The routes \<open>POST /api/classify\<close> and \<open>POST /api/generate-reply\<close>.\<close>

definition api_classify ::
  "config \<Rightarrow> chat_api \<Rightarrow> timestamp \<Rightarrow> string request \<Rightarrow> world
     \<Rightarrow> (exn + classification_response) \<times> world" where
  "api_classify cfg api now = dispatch cfg now (validate_EmailInput cfg) (classify_email api)"

definition api_generate_reply ::
  "config \<Rightarrow> chat_api \<Rightarrow> timestamp \<Rightarrow> message list request \<Rightarrow> world
     \<Rightarrow> (exn + reply_response) \<times> world" where
  "api_generate_reply cfg api now =
     dispatch cfg now (validate_ConversationRequest cfg) (generate_reply_api api)"

text \<open>
  The status of the HTTP answer: 200 for a response, the status of an \<open>HTTPException\<close>,
  422 for a \<open>RequestValidationError\<close>, 500 for an exception that nothing handles.
\<close>

fun status_code :: "exn + 'a \<Rightarrow> nat" where
  "status_code (Inr _) = 200"
| "status_code (Inl (HTTPException code _)) = code"
| "status_code (Inl (RequestValidationError _)) = 422"
| "status_code (Inl _) = 500"

section \<open>Properties of the text functions\<close>

lemma startswith_append [simp]: "startswith (p @ r) p"
  by (simp add: startswith_def)

lemma startswith_iff_append: "startswith s p \<longleftrightarrow> (\<exists>r. s = p @ r)"
proof
  assume "startswith s p"
  then have "s = p @ drop (length p) s"
    by (metis append_take_drop_id startswith_def)
  then show "\<exists>r. s = p @ r" ..
next
  assume "\<exists>r. s = p @ r"
  then show "startswith s p" by auto
qed

lemma strip_clean:
  assumes "t = [] \<or> (\<not> isspace (hd t) \<and> \<not> isspace (last t))"
  shows "strip t = t"
proof (cases "t = []")
  case True
  then show ?thesis by (simp add: strip_def lstrip_def rstrip_def)
next
  case False
  with assms have h: "\<not> isspace (hd t)" and l: "\<not> isspace (last t)" by simp_all
  from False h have "dropWhile isspace t = t" by (cases t) simp_all
  moreover from False l have "dropWhile isspace (rev t) = rev t"
    by (cases "rev t") (simp_all add: last_rev [symmetric] del: last_rev)
  ultimately show ?thesis by (simp add: strip_def lstrip_def rstrip_def)
qed

lemma strip_ends: "strip s = [] \<or> (\<not> isspace (hd (strip s)) \<and> \<not> isspace (last (strip s)))"
proof (cases "lstrip s = []")
  case True
  then show ?thesis by (simp add: strip_def rstrip_def)
next
  case False
  define u where "u = lstrip s"
  define w where "w = dropWhile isspace (rev u)"
  from False have u: "u \<noteq> []" and hu: "\<not> isspace (hd u)"
    unfolding u_def lstrip_def using hd_dropWhile [of isspace s] by simp_all
  have "rev u = takeWhile isspace (rev u) @ w"
    unfolding w_def by simp
  moreover have w: "w \<noteq> []"
    unfolding w_def using u hu by (cases u) (auto simp: dropWhile_eq_Nil_conv)
  ultimately have "last (rev u) = last w"
    by (metis last_appendR)
  then have lw: "last w = hd u" using u by (simp add: last_rev)
  from w have hw: "\<not> isspace (hd w)"
    unfolding w_def using hd_dropWhile [of isspace "rev u"] by simp
  have "strip s = rev w" by (simp add: strip_def rstrip_def u_def w_def)
  moreover from w have "hd (rev w) = last w" "last (rev w) = hd w"
    by (simp_all add: hd_rev last_rev)
  ultimately show ?thesis using w lw hu hw by simp
qed

lemma strip_decompose:
  "\<exists>a b. s = a @ strip s @ b \<and> list_all isspace a \<and> list_all isspace b"
proof -
  define u where "u = dropWhile isspace s"
  have s: "s = takeWhile isspace s @ u"
    unfolding u_def by simp
  have "rev (dropWhile isspace (rev u)) @ rev (takeWhile isspace (rev u))
          = rev (takeWhile isspace (rev u) @ dropWhile isspace (rev u))"
    by (simp only: rev_append)
  also have "\<dots> = rev (rev u)"
    by (simp only: takeWhile_dropWhile_id)
  also have "\<dots> = u"
    by simp
  finally have "u = rev (dropWhile isspace (rev u)) @ rev (takeWhile isspace (rev u))"
    by (rule sym)
  moreover have "strip s = rev (dropWhile isspace (rev u))"
    by (simp only: strip_def lstrip_def rstrip_def u_def)
  ultimately have u: "u = strip s @ rev (takeWhile isspace (rev u))"
    by (simp only:)
  have a: "list_all isspace (takeWhile isspace s)"
    by (auto simp: list_all_iff dest: set_takeWhileD)
  have b: "list_all isspace (rev (takeWhile isspace (rev u)))"
    by (auto simp: list_all_iff dest: set_takeWhileD)
  from s u have "s = takeWhile isspace s @ strip s @ rev (takeWhile isspace (rev u))"
    by simp
  with a b show ?thesis by blast
qed

section \<open>Reply cleanup strips one leading role prefix\<close>

text \<open>
  Claim C4. For every raw reply text, \<open>clean_reply\<close> removes one leading \<open>User:\<close> or
  \<open>Scammer:\<close> (matched exactly, case-sensitively, at the very start of the text) and trims
  what follows; whatever follows the prefix, later occurrences included, is only trimmed.
  A text that starts with neither prefix is only trimmed. Trimming a text \<open>s\<close> takes a run
  of whitespace off its front and one off its back, and what is left neither starts nor
  ends with whitespace. So \<open>User: hi there\<close> becomes \<open>hi there\<close>, with or without blanks,
  tabs and line feeds around it; \<open>Hi User: there\<close> stays as it is, and loses only the
  whitespace around it; a doubled prefix loses only its first copy; a lower-case \<open>user:\<close>
  and a prefix after a leading blank are not prefixes.
\<close>

theorem clean_reply_strips_one_leading_prefix:
  "clean_reply (''User:'' @ r) = strip r
   \<and> clean_reply (''Scammer:'' @ r) = strip r
   \<and> (\<not> startswith t ''User:'' \<and> \<not> startswith t ''Scammer:'' \<longrightarrow> clean_reply t = strip t)
   \<and> (\<exists>a b. s = a @ strip s @ b \<and> list_all isspace a \<and> list_all isspace b)
   \<and> (strip s = [] \<or> (\<not> isspace (hd (strip s)) \<and> \<not> isspace (last (strip s))))
   \<and> clean_reply ''User: hi there'' = ''hi there''
   \<and> clean_reply ''User: hi there  '' = ''hi there''
   \<and> clean_reply (''User:'' @ [CHR 0x09, CHR 0x20] @ ''hi there'' @ [CHR 0x20, CHR 0x0D, CHR 0x0A])
        = ''hi there''
   \<and> clean_reply ''Scammer:  pay now  '' = ''pay now''
   \<and> clean_reply ''User:   '' = []
   \<and> clean_reply ''Hi User: there'' = ''Hi User: there''
   \<and> clean_reply (''  Hi User: there '' @ [CHR 0x0A]) = ''Hi User: there''
   \<and> clean_reply ''User:User: hi'' = ''User: hi''
   \<and> clean_reply ''User: Scammer: hi '' = ''Scammer: hi''
   \<and> clean_reply ''user: hi'' = ''user: hi''
   \<and> clean_reply '' User: hi'' = ''User: hi''"
proof -
  note eval = clean_reply_def startswith_def strip_def lstrip_def rstrip_def isspace_def
    whitespace_chars_def
  have user: "clean_reply (''User:'' @ r) = strip r"
    by (simp add: clean_reply_def startswith_def)
  have scammer: "clean_reply (''Scammer:'' @ r) = strip r"
    by (simp add: clean_reply_def startswith_def)
  have other: "\<not> startswith t ''User:'' \<and> \<not> startswith t ''Scammer:'' \<longrightarrow> clean_reply t = strip t"
    by (simp add: clean_reply_def)
  have parts: "\<exists>a b. s = a @ strip s @ b \<and> list_all isspace a \<and> list_all isspace b"
    by (rule strip_decompose)
  have ends: "strip s = [] \<or> (\<not> isspace (hd (strip s)) \<and> \<not> isspace (last (strip s)))"
    by (rule strip_ends)
  have ex1: "clean_reply ''User: hi there'' = ''hi there''"
    by (simp add: eval)
  have ex2: "clean_reply ''User: hi there  '' = ''hi there''"
    by (simp add: eval)
  have ex3: "clean_reply (''User:'' @ [CHR 0x09, CHR 0x20] @ ''hi there'' @ [CHR 0x20, CHR 0x0D, CHR 0x0A])
        = ''hi there''"
    by (simp add: eval)
  have ex4: "clean_reply ''Scammer:  pay now  '' = ''pay now''"
    by (simp add: eval)
  have ex5: "clean_reply ''User:   '' = []"
    by (simp add: eval)
  have ex6: "clean_reply ''Hi User: there'' = ''Hi User: there''"
    by (simp add: eval)
  have ex7: "clean_reply (''  Hi User: there '' @ [CHR 0x0A]) = ''Hi User: there''"
    by (simp add: eval)
  have ex8: "clean_reply ''User:User: hi'' = ''User: hi''"
    by (simp add: eval)
  have ex9: "clean_reply ''User: Scammer: hi '' = ''Scammer: hi''"
    by (simp add: eval)
  have ex10: "clean_reply ''user: hi'' = ''user: hi''"
    by (simp add: eval)
  have ex11: "clean_reply '' User: hi'' = ''User: hi''"
    by (simp add: eval)
  from user scammer other parts ends ex1 ex2 ex3 ex4 ex5 ex6 ex7 ex8 ex9 ex10 ex11
  show ?thesis by blast
qed

theorem clean_reply_strips_one_leading_prefix_witness:
  "\<not> startswith ''  Hi User: there  '' ''User:'' \<and> \<not> startswith ''  Hi User: there  '' ''Scammer:''
   \<and> clean_reply ''  Hi User: there  '' = strip ''  Hi User: there  ''
   \<and> strip ''  Hi User: there  '' = ''Hi User: there''"
  using clean_reply_strips_one_leading_prefix [of "[]" "''  Hi User: there  ''" "[]"]
  by (simp add: startswith_def strip_def lstrip_def rstrip_def isspace_def whitespace_chars_def)

section \<open>Properties of the rate limiter\<close>

lemma requests_of_upd [simp]:
  "requests_of (rl(c \<mapsto> ts)) c' = (if c' = c then ts else requests_of rl c')"
  by (simp add: requests_of_def)

lemma is_allowed_requests:
  "requests_of (snd (is_allowed cfg now rl c)) c' =
     (if c' = c then
        (let kept = filter (\<lambda>t. now - t < timedelta_seconds (RATE_LIMIT_WINDOW cfg)) (requests_of rl c)
         in if RATE_LIMIT_REQUESTS cfg \<le> int (length kept) then kept else kept @ [now])
      else requests_of rl c')"
  by (simp add: is_allowed_def Let_def)

lemma is_allowed_fst:
  "fst (is_allowed cfg now rl c) \<longleftrightarrow>
     int (length (filter (\<lambda>t. now - t < timedelta_seconds (RATE_LIMIT_WINDOW cfg)) (requests_of rl c)))
       < RATE_LIMIT_REQUESTS cfg"
  by (simp add: is_allowed_def Let_def)

lemma admitted_times_Nil [simp]: "admitted_times c [] oks = []"
  by (simp add: admitted_times_def)

lemma admitted_times_Cons [simp]:
  "admitted_times c ((c', t) # calls) (ok # oks) =
     (if c' = c \<and> ok then [t] else []) @ admitted_times c calls oks"
  by (simp add: admitted_times_def)

lemma filter_recent_evicted:
  assumes "t \<le> now"
  shows "filter (\<lambda>x. now - x < (w::int)) (filter (\<lambda>x. t - x < w) xs) = filter (\<lambda>x. now - x < w) xs"
  using assms by (induction xs) auto

lemma run_recent:
  assumes "\<forall>t\<in>set (map snd calls). t \<le> now" and "run cfg calls rl = (oks, rl')"
  shows "filter (\<lambda>t. now - t < timedelta_seconds (RATE_LIMIT_WINDOW cfg)) (requests_of rl' c) =
         filter (\<lambda>t. now - t < timedelta_seconds (RATE_LIMIT_WINDOW cfg))
           (requests_of rl c @ admitted_times c calls oks)"
  using assms
proof (induction calls arbitrary: rl oks rl')
  case Nil
  then show ?case by simp
next
  case (Cons call calls)
  obtain c' t where call: "call = (c', t)" by (cases call)
  obtain ok rl1 where step: "is_allowed cfg t rl c' = (ok, rl1)" by (cases "is_allowed cfg t rl c'")
  obtain oks1 rl2 where rest: "run cfg calls rl1 = (oks1, rl2)" by (cases "run cfg calls rl1")
  from Cons.prems(2) call step rest have oks: "oks = ok # oks1" and rl': "rl' = rl2" by auto
  from Cons.prems(1) call have t: "t \<le> now" and le: "\<forall>t\<in>set (map snd calls). t \<le> now" by auto
  have IH: "filter (\<lambda>t. now - t < timedelta_seconds (RATE_LIMIT_WINDOW cfg)) (requests_of rl2 c) =
         filter (\<lambda>t. now - t < timedelta_seconds (RATE_LIMIT_WINDOW cfg))
           (requests_of rl1 c @ admitted_times c calls oks1)"
    using Cons.IH [OF le rest] .
  have ok: "ok = fst (is_allowed cfg t rl c')" and rl1: "rl1 = snd (is_allowed cfg t rl c')"
    using step by simp_all
  have "filter (\<lambda>x. now - x < timedelta_seconds (RATE_LIMIT_WINDOW cfg)) (requests_of rl1 c) =
        filter (\<lambda>x. now - x < timedelta_seconds (RATE_LIMIT_WINDOW cfg))
          (requests_of rl c @ (if c' = c \<and> ok then [t] else []))"
    unfolding rl1 ok is_allowed_requests is_allowed_fst
    using filter_recent_evicted [OF t] by (auto simp: Let_def)
  with IH show ?case unfolding oks rl' call by simp
qed


lemma is_allowed_count:
  assumes "int (length (requests_of rl c)) \<le> RATE_LIMIT_REQUESTS cfg"
  shows "int (length (requests_of (snd (is_allowed cfg now rl c')) c)) \<le> RATE_LIMIT_REQUESTS cfg"
proof (cases "c = c'")
  case False
  with assms show ?thesis by (simp add: is_allowed_requests)
next
  case True
  define kept where
    "kept = filter (\<lambda>t. now - t < timedelta_seconds (RATE_LIMIT_WINDOW cfg)) (requests_of rl c)"
  have "length kept \<le> length (requests_of rl c)"
    unfolding kept_def by (rule length_filter_le)
  with assms have kept: "int (length kept) \<le> RATE_LIMIT_REQUESTS cfg" by linarith
  have "requests_of (snd (is_allowed cfg now rl c')) c =
          (if RATE_LIMIT_REQUESTS cfg \<le> int (length kept) then kept else kept @ [now])"
    unfolding kept_def using True by (simp add: is_allowed_requests Let_def)
  with kept show ?thesis by auto
qed

lemma run_count:
  assumes "\<forall>c. int (length (requests_of rl c)) \<le> RATE_LIMIT_REQUESTS cfg"
  shows "int (length (requests_of (snd (run cfg calls rl)) c)) \<le> RATE_LIMIT_REQUESTS cfg"
  using assms
proof (induction calls arbitrary: rl)
  case Nil
  then show ?case by simp
next
  case (Cons call calls)
  obtain c' t where call: "call = (c', t)" by (cases call)
  have "\<forall>c. int (length (requests_of (snd (is_allowed cfg t rl c')) c)) \<le> RATE_LIMIT_REQUESTS cfg"
    using Cons.prems is_allowed_count by blast
  from Cons.IH [OF this] show ?case
    by (simp add: call split: prod.splits) (metis snd_conv)
qed

subsection \<open>One call of the limiter\<close>

text \<open>
  Claim C1, as the code has it. For every client address, every time \<open>now\<close> and every
  dictionary, one call of \<open>is_allowed\<close> first evicts every timestamp recorded for the
  client that is at least one window old (\<open>t \<le> now - window\<close>) and keeps, in their order,
  all the others, which are those with \<open>now - t < window\<close>. If the number of timestamps
  kept is at least the request cap, the call returns \<open>False\<close> and the record is the kept
  list, \<open>now\<close> not added; otherwise \<open>now\<close> is appended to the kept list and the call
  returns \<open>True\<close>. No other client's record changes. The default cap is 10 requests and
  the default window 60 seconds.
\<close>

theorem is_allowed_evicts_then_admits:
  "let window = timedelta_seconds (RATE_LIMIT_WINDOW cfg);
       kept = filter (\<lambda>t. now - t < window) (requests_of rl client_ip)
   in (\<forall>t\<in>set (requests_of rl client_ip). t \<le> now - window \<longrightarrow> t \<notin> set kept)
    \<and> (\<forall>t\<in>set (requests_of rl client_ip). now - window < t \<longrightarrow> t \<in> set kept)
    \<and> (RATE_LIMIT_REQUESTS cfg \<le> int (length kept) \<longrightarrow>
         is_allowed cfg now rl client_ip = (False, rl(client_ip \<mapsto> kept)))
    \<and> (int (length kept) < RATE_LIMIT_REQUESTS cfg \<longrightarrow>
         is_allowed cfg now rl client_ip = (True, rl(client_ip \<mapsto> kept @ [now])))
    \<and> RATE_LIMIT_REQUESTS default_config = 10 \<and> RATE_LIMIT_WINDOW default_config = 60"
  by (auto simp: is_allowed_def Let_def default_config_def)

theorem is_allowed_evicts_then_admits_witness:
  "is_allowed default_config 61000000 [''10.0.0.1'' \<mapsto> [0, 1000000, 30000000]] ''10.0.0.1''
     = (True, [''10.0.0.1'' \<mapsto> [30000000, 61000000]])
   \<and> is_allowed (default_config\<lparr>RATE_LIMIT_REQUESTS := 1\<rparr>) 61000000
        [''10.0.0.1'' \<mapsto> [0, 1000000, 30000000]] ''10.0.0.1''
     = (False, [''10.0.0.1'' \<mapsto> [30000000]])"
  using is_allowed_evicts_then_admits [of default_config 61000000
      "[''10.0.0.1'' \<mapsto> [0, 1000000, 30000000]]" "''10.0.0.1''"]
    is_allowed_evicts_then_admits [of "default_config\<lparr>RATE_LIMIT_REQUESTS := 1\<rparr>" 61000000
      "[''10.0.0.1'' \<mapsto> [0, 1000000, 30000000]]" "''10.0.0.1''"]
  by (simp add: Let_def default_config_def timedelta_seconds_def requests_of_def)

text \<open>
  The claim as the specification states it evicts only the timestamps older than
  \<open>now - window\<close>. It fails with a cap of 1, the window of 60 seconds, the one recorded
  timestamp 0 and a call at exactly 60 seconds: the timestamp is not older than
  \<open>now - window\<close>, so by the specification's wording it stays and the call is rejected,
  while \<open>is_allowed\<close> evicts it and admits the call.
\<close>

theorem timestamp_one_window_old_is_evicted:
  "\<not> (0 < 60000000 - timedelta_seconds (RATE_LIMIT_WINDOW (default_config\<lparr>RATE_LIMIT_REQUESTS := 1\<rparr>)))
   \<and> admit_as_specified (default_config\<lparr>RATE_LIMIT_REQUESTS := 1\<rparr>) 60000000
        [''10.0.0.1'' \<mapsto> [0]] ''10.0.0.1''
       = (False, [''10.0.0.1'' \<mapsto> [0]])
   \<and> is_allowed (default_config\<lparr>RATE_LIMIT_REQUESTS := 1\<rparr>) 60000000
        [''10.0.0.1'' \<mapsto> [0]] ''10.0.0.1''
       = (True, [''10.0.0.1'' \<mapsto> [60000000]])"
  by (simp add: is_allowed_def admit_as_specified_def Let_def default_config_def
      timedelta_seconds_def requests_of_def)

subsection \<open>The invariant of the limiter\<close>

text \<open>
  Claim C10, as the code has it. Right after a call of \<open>is_allowed\<close> at time \<open>now\<close>, every
  timestamp \<open>t\<close> stored for the queried client has \<open>now - t < window\<close>, provided the
  configured window is positive. A call never takes the number of stored timestamps of a
  client above the cap when it was not above it before. So, provided the configured cap
  is not negative, in every dictionary that calls of \<open>is_allowed\<close> (for any clients, at
  any times) build from the empty one, the queried client has at most cap-many
  timestamps after the call.
\<close>

theorem limiter_invariant:
  "(0 < RATE_LIMIT_WINDOW cfg \<longrightarrow>
      (\<forall>t\<in>set (requests_of (snd (is_allowed cfg now rl c)) c).
          now - t < timedelta_seconds (RATE_LIMIT_WINDOW cfg)))
   \<and> (int (length (requests_of rl c)) \<le> RATE_LIMIT_REQUESTS cfg \<longrightarrow>
        int (length (requests_of (snd (is_allowed cfg now rl c)) c)) \<le> RATE_LIMIT_REQUESTS cfg)
   \<and> (0 \<le> RATE_LIMIT_REQUESTS cfg \<longrightarrow>
        int (length (requests_of (snd (is_allowed cfg now (snd (run cfg calls Map.empty)) c)) c))
          \<le> RATE_LIMIT_REQUESTS cfg)"
proof -
  have age: "0 < RATE_LIMIT_WINDOW cfg \<longrightarrow>
      (\<forall>t\<in>set (requests_of (snd (is_allowed cfg now rl c)) c).
          now - t < timedelta_seconds (RATE_LIMIT_WINDOW cfg))"
    by (auto simp: is_allowed_requests Let_def timedelta_seconds_def)
  have pres: "int (length (requests_of rl c)) \<le> RATE_LIMIT_REQUESTS cfg \<longrightarrow>
            int (length (requests_of (snd (is_allowed cfg now rl c)) c)) \<le> RATE_LIMIT_REQUESTS cfg"
    using is_allowed_count by blast
  have reach: "0 \<le> RATE_LIMIT_REQUESTS cfg \<longrightarrow>
        int (length (requests_of (snd (is_allowed cfg now (snd (run cfg calls Map.empty)) c)) c))
          \<le> RATE_LIMIT_REQUESTS cfg"
  proof
    assume "0 \<le> RATE_LIMIT_REQUESTS cfg"
    then have "\<forall>c. int (length (requests_of Map.empty c)) \<le> RATE_LIMIT_REQUESTS cfg"
      by (simp add: requests_of_def)
    then have "int (length (requests_of (snd (run cfg calls Map.empty)) c)) \<le> RATE_LIMIT_REQUESTS cfg"
      by (rule run_count)
    then show "int (length (requests_of (snd (is_allowed cfg now (snd (run cfg calls Map.empty)) c)) c))
            \<le> RATE_LIMIT_REQUESTS cfg"
      by (rule is_allowed_count)
  qed
  from age pres reach show ?thesis by blast
qed

theorem limiter_invariant_witness:
  "0 < RATE_LIMIT_WINDOW default_config \<and> 0 \<le> RATE_LIMIT_REQUESTS default_config
   \<and> int (length (requests_of [''10.0.0.1'' \<mapsto> [0, 30000000]] ''10.0.0.1''))
        \<le> RATE_LIMIT_REQUESTS default_config
   \<and> requests_of (snd (is_allowed default_config 61000000 [''10.0.0.1'' \<mapsto> [0, 30000000]] ''10.0.0.1''))
        ''10.0.0.1'' = [30000000, 61000000]
   \<and> 61000000 - 30000000 < timedelta_seconds (RATE_LIMIT_WINDOW default_config)
   \<and> 61000000 - 61000000 < timedelta_seconds (RATE_LIMIT_WINDOW default_config)
   \<and> int (length [30000000, 61000000 :: int]) \<le> RATE_LIMIT_REQUESTS default_config
   \<and> int (length (requests_of (snd (is_allowed default_config 61000000
        (snd (run default_config [(''10.0.0.1'', 0), (''10.0.0.2'', 5), (''10.0.0.1'', 30000000)] Map.empty))
        ''10.0.0.1'')) ''10.0.0.1'')) \<le> RATE_LIMIT_REQUESTS default_config"
  using limiter_invariant [of default_config 61000000 "[''10.0.0.1'' \<mapsto> [0, 30000000]]" "''10.0.0.1''"
      "[(''10.0.0.1'', 0), (''10.0.0.2'', 5), (''10.0.0.1'', 30000000)]"]
  by (simp add: default_config_def is_allowed_requests timedelta_seconds_def)

text \<open>
  The claim as stated, for every configuration, fails where the configuration is
  degenerate. With a window of 0 the first call of a client is admitted and stores \<open>now\<close>,
  which does not satisfy \<open>now - t < window\<close>. With a cap of -1 the first call of a client
  is rejected and leaves an empty record, whose length 0 is above the cap.
\<close>

theorem degenerate_configurations_break_invariant:
  "is_allowed (default_config\<lparr>RATE_LIMIT_WINDOW := 0\<rparr>) 5 Map.empty ''10.0.0.1''
     = (True, [''10.0.0.1'' \<mapsto> [5]])
   \<and> \<not> (5 - 5 < timedelta_seconds (RATE_LIMIT_WINDOW (default_config\<lparr>RATE_LIMIT_WINDOW := 0\<rparr>)))
   \<and> is_allowed (default_config\<lparr>RATE_LIMIT_REQUESTS := - 1\<rparr>) 5 Map.empty ''10.0.0.1''
     = (False, [''10.0.0.1'' \<mapsto> []])
   \<and> \<not> (int (length (requests_of [''10.0.0.1'' \<mapsto> []] ''10.0.0.1''))
          \<le> RATE_LIMIT_REQUESTS (default_config\<lparr>RATE_LIMIT_REQUESTS := - 1\<rparr>))"
  by (simp add: is_allowed_def Let_def default_config_def timedelta_seconds_def requests_of_def)

subsection \<open>Histories of calls\<close>

text \<open>
  Claim C5. Take any history of calls, for any clients, whose times never decrease, made
  on a fresh limiter, and a further call for client \<open>c\<close> at a time \<open>now\<close> not before the
  last of them. If at least cap-many of the admitted calls of \<open>c\<close> lie within the window
  that ends at \<open>now\<close> (\<open>now - t < window\<close>), the further call is rejected: after cap-many
  admitted requests in one window, request number cap + 1 in that window is refused. If
  instead the window has elapsed since every admitted call of \<open>c\<close>
  (\<open>window \<le> now - t\<close>) and the cap is positive, the further call is admitted.
\<close>

theorem cap_reached_rejects_window_elapsed_admits:
  assumes "sorted (map snd calls @ [now])" and "run cfg calls Map.empty = (oks, rl)"
  shows "(RATE_LIMIT_REQUESTS cfg
            \<le> int (length (filter (\<lambda>t. now - t < timedelta_seconds (RATE_LIMIT_WINDOW cfg))
                              (admitted_times c calls oks)))
          \<longrightarrow> \<not> fst (is_allowed cfg now rl c))
       \<and> (0 < RATE_LIMIT_REQUESTS cfg
            \<and> (\<forall>t\<in>set (admitted_times c calls oks). timedelta_seconds (RATE_LIMIT_WINDOW cfg) \<le> now - t)
          \<longrightarrow> fst (is_allowed cfg now rl c))"
proof -
  from assms(1) have le: "\<forall>t\<in>set (map snd calls). t \<le> now"
    by (simp add: sorted_append)
  have recent: "filter (\<lambda>t. now - t < timedelta_seconds (RATE_LIMIT_WINDOW cfg)) (requests_of rl c) =
         filter (\<lambda>t. now - t < timedelta_seconds (RATE_LIMIT_WINDOW cfg)) (admitted_times c calls oks)"
    using run_recent [OF le assms(2), of c] by (simp add: requests_of_def)
  have stale: "(\<forall>t\<in>set (admitted_times c calls oks). timedelta_seconds (RATE_LIMIT_WINDOW cfg) \<le> now - t)
      \<Longrightarrow> filter (\<lambda>t. now - t < timedelta_seconds (RATE_LIMIT_WINDOW cfg)) (admitted_times c calls oks) = []"
    by (auto simp: filter_empty_conv)
  show ?thesis
    unfolding is_allowed_fst recent using stale by auto
qed

theorem cap_reached_rejects_window_elapsed_admits_witness:
  "sorted (map snd (map (\<lambda>n::int. (''10.0.0.1'', n * 1000000)) [0, 1, 2, 3, 4, 5, 6, 7, 8, 9]) @ [59999999])
   \<and> run default_config (map (\<lambda>n::int. (''10.0.0.1'', n * 1000000)) [0, 1, 2, 3, 4, 5, 6, 7, 8, 9]) Map.empty
       = (replicate 10 True, [''10.0.0.1'' \<mapsto> map (\<lambda>n::int. n * 1000000) [0, 1, 2, 3, 4, 5, 6, 7, 8, 9]])
   \<and> \<not> fst (is_allowed default_config 59999999
         [''10.0.0.1'' \<mapsto> map (\<lambda>n::int. n * 1000000) [0, 1, 2, 3, 4, 5, 6, 7, 8, 9]] ''10.0.0.1'')
   \<and> sorted (map snd (map (\<lambda>n::int. (''10.0.0.1'', n * 1000000)) [0, 1, 2, 3, 4, 5, 6, 7, 8, 9]
                @ [(''10.0.0.1'', 59999999)]) @ [69000000])
   \<and> run default_config (map (\<lambda>n::int. (''10.0.0.1'', n * 1000000)) [0, 1, 2, 3, 4, 5, 6, 7, 8, 9]
                @ [(''10.0.0.1'', 59999999)]) Map.empty
       = (replicate 10 True @ [False], [''10.0.0.1'' \<mapsto> map (\<lambda>n::int. n * 1000000) [0, 1, 2, 3, 4, 5, 6, 7, 8, 9]])
   \<and> fst (is_allowed default_config 69000000
         [''10.0.0.1'' \<mapsto> map (\<lambda>n::int. n * 1000000) [0, 1, 2, 3, 4, 5, 6, 7, 8, 9]] ''10.0.0.1'')"
proof -
  let ?c = "''10.0.0.1''"
  let ?calls = "map (\<lambda>n. (?c, n * 1000000)) [0, 1, 2, 3, 4, 5, 6, 7, 8, 9 :: int]"
  let ?ts = "map (\<lambda>n::int. n * 1000000) [0, 1, 2, 3, 4, 5, 6, 7, 8, 9 :: int]"
  have s1: "sorted (map snd ?calls @ [59999999])" by simp
  have r1: "run default_config ?calls Map.empty = (replicate 10 True, [?c \<mapsto> ?ts])"
    by (simp add: is_allowed_def Let_def default_config_def timedelta_seconds_def requests_of_def
        numeral_eq_Suc)
  have s2: "sorted (map snd (?calls @ [(?c, 59999999)]) @ [69000000])" by simp
  have r2: "run default_config (?calls @ [(?c, 59999999)]) Map.empty
              = (replicate 10 True @ [False], [?c \<mapsto> ?ts])"
    by (simp add: is_allowed_def Let_def default_config_def timedelta_seconds_def requests_of_def
        numeral_eq_Suc)
  have a1: "\<not> fst (is_allowed default_config 59999999 [?c \<mapsto> ?ts] ?c)"
    using cap_reached_rejects_window_elapsed_admits [OF s1 r1, of ?c]
    by (simp add: admitted_times_def default_config_def timedelta_seconds_def numeral_eq_Suc)
  have a2: "fst (is_allowed default_config 69000000 [?c \<mapsto> ?ts] ?c)"
    using cap_reached_rejects_window_elapsed_admits [OF s2 r2, of ?c]
    by (simp add: admitted_times_def default_config_def timedelta_seconds_def numeral_eq_Suc)
  from s1 r1 a1 s2 r2 a2 show ?thesis by blast
qed

section \<open>Properties of request validation\<close>

lemma strip_all_space:
  assumes "list_all isspace v"
  shows "strip v = []"
proof -
  from assms have "\<forall>c\<in>set v. isspace c" by (simp add: list_all_iff)
  then have empty: "dropWhile isspace v = []" by (rule dropWhile_eq_Nil_conv [THEN iffD2])
  show ?thesis unfolding strip_def lstrip_def rstrip_def empty by simp
qed

lemma isspace_space [simp]: "isspace (CHR '' '')"
  by (simp add: isspace_def whitespace_chars_def)

subsection \<open>Whitespace-only contents\<close>

text \<open>
  Claim C3, as the code has it. The length bounds of the content are checked on the
  content as received, before the validator that trims it. So a content made only of
  whitespace is rejected as empty when it has at most 1000 characters (by the
  minimum-length check when it has none, by \<open>Content cannot be empty\<close> otherwise), and
  as too long when it has more than 1000 characters; either way the message is rejected.
\<close>

theorem whitespace_content_rejected:
  assumes "list_all isspace v"
  shows "(length v \<le> 1000 \<longrightarrow>
           validate_content v = Inl (if v = [] then String_too_short else Value_error ''Content cannot be empty''))
       \<and> (1000 < length v \<longrightarrow> validate_content v = Inl String_too_long)
       \<and> (\<exists>errs. validate_Message \<lparr>role = r, content = v\<rparr> = Inl errs)"
  using strip_all_space [OF assms]
  by (auto simp: validate_content_def content_must_not_be_empty_def validate_Message_def
      split: sum.splits)


theorem whitespace_content_rejected_witness:
  "list_all isspace (replicate 1000 (CHR '' ''))
   \<and> length (replicate 1000 (CHR '' '')) \<le> 1000
   \<and> validate_content (replicate 1000 (CHR '' '')) = Inl (Value_error ''Content cannot be empty'')"
  using whitespace_content_rejected [of "replicate 1000 (CHR '' '')"]
  by (simp add: list_all_iff)

text \<open>
  The claim as the specification states it, "whatever its length, never as too long",
  fails at 1001 spaces: the content is all whitespace and the error is \<open>String_too_long\<close>.
\<close>

theorem whitespace_1001_rejected_as_too_long:
  "list_all isspace (replicate 1001 (CHR '' ''))
   \<and> validate_content (replicate 1001 (CHR '' '')) = Inl String_too_long
   \<and> validate_Message \<lparr>role = ''user'', content = replicate 1001 (CHR '' '')\<rparr> = Inl [String_too_long]"
  by (simp add: validate_content_def validate_Message_def validate_role_def list_all_iff)

lemma strip_length_le: "length (strip v) \<le> length v"
proof -
  have "length (strip v) \<le> length (lstrip v)"
    unfolding strip_def rstrip_def using length_dropWhile_le [of isspace "rev (lstrip v)"] by simp
  also have "\<dots> \<le> length v"
    unfolding lstrip_def by (rule length_dropWhile_le)
  finally show ?thesis .
qed

lemma validate_Message_Inr_iff:
  "validate_Message m = Inr v \<longleftrightarrow>
     (role m = ''scammer'' \<or> role m = ''user'') \<and> length (content m) \<le> 1000
     \<and> strip (content m) \<noteq> [] \<and> v = \<lparr>role = role m, content = strip (content m)\<rparr>"
proof -
  have "strip (content m) \<noteq> [] \<Longrightarrow> content m \<noteq> []"
    using strip_length_le [of "content m"] by auto
  then show ?thesis
    by (auto simp: validate_Message_def validate_role_def validate_content_def
        content_must_not_be_empty_def split: sum.splits if_splits)
qed

lemma validate_Message_cases:
  "(\<exists>v. validate_Message m = Inr v) \<or> (\<exists>e es. validate_Message m = Inl (e # es))"
  by (auto simp: validate_Message_def split: sum.splits prod.splits)

lemma validate_items_ok_iff:
  "validate_items ms = ([], vs) \<longleftrightarrow>
     list_all (\<lambda>m. (role m = ''scammer'' \<or> role m = ''user'') \<and> length (content m) \<le> 1000
                   \<and> strip (content m) \<noteq> []) ms
     \<and> vs = map (\<lambda>m. \<lparr>role = role m, content = strip (content m)\<rparr>) ms"
proof (induction ms arbitrary: vs)
  case Nil
  show ?case by auto
next
  case (Cons m ms)
  obtain errs ws where rest: "validate_items ms = (errs, ws)" by (cases "validate_items ms")
  show ?case
  proof (cases "validate_Message m")
    case (Inl es)
    with validate_Message_cases [of m] obtain e es' where es: "es = e # es'" by auto
    have "\<not> ((role m = ''scammer'' \<or> role m = ''user'') \<and> length (content m) \<le> 1000
                   \<and> strip (content m) \<noteq> [])"
      using Inl validate_Message_Inr_iff [of m "\<lparr>role = role m, content = strip (content m)\<rparr>"] by auto
    then show ?thesis using Inl es rest by auto
  next
    case (Inr v)
    then show ?thesis
      using rest Cons.IH [of "tl vs"] validate_Message_Inr_iff [of m v]
      by (cases vs) auto
  qed
qed


lemma not_isspace_x [simp]: "\<not> isspace (CHR ''x'')"
  by (simp add: isspace_def whitespace_chars_def)

lemma strip_x_spaces: "strip (CHR ''x'' # replicate n (CHR '' '')) = ''x''"
proof -
  have "dropWhile isspace (replicate n (CHR '' '') @ ''x'') = ''x''"
    by (induction n) simp_all
  then show ?thesis
    by (simp add: strip_def lstrip_def rstrip_def)
qed

lemma validate_ConversationRequest_cases:
  "(within_bounds cfg conversation \<longrightarrow>
      validate_ConversationRequest cfg conversation
        = Inr (map (\<lambda>m. \<lparr>role = role m, content = strip (content m)\<rparr>) conversation))
   \<and> (\<not> within_bounds cfg conversation \<longrightarrow>
        (\<exists>errs. validate_ConversationRequest cfg conversation = Inl errs))"
proof (cases "50 < length conversation")
  case True
  then show ?thesis by (simp add: within_bounds_def validate_ConversationRequest_def)
next
  case False
  obtain errs vs where items: "validate_items conversation = (errs, vs)"
    by (cases "validate_items conversation")
  show ?thesis
  proof (cases "errs = []")
    case True
    with items validate_items_ok_iff [of conversation vs]
    have ok: "list_all (\<lambda>m. (role m = ''scammer'' \<or> role m = ''user'') \<and> length (content m) \<le> 1000
                   \<and> strip (content m) \<noteq> []) conversation"
      and vs: "vs = map (\<lambda>m. \<lparr>role = role m, content = strip (content m)\<rparr>) conversation"
      by simp_all
    from vs have len: "length vs = length conversation" by simp
    show ?thesis
      using False items True ok len
      by (auto simp: within_bounds_def validate_ConversationRequest_def
          validate_conversation_length_def Let_def vs comp_def Suc_le_eq)
  next
    case False
    with items validate_items_ok_iff [of conversation "map (\<lambda>m. \<lparr>role = role m, content = strip (content m)\<rparr>) conversation"]
    have "\<not> list_all (\<lambda>m. (role m = ''scammer'' \<or> role m = ''user'') \<and> length (content m) \<le> 1000
                   \<and> strip (content m) \<noteq> []) conversation"
      by auto
    then show ?thesis
      using False items \<open>\<not> 50 < length conversation\<close>
      by (auto simp: within_bounds_def validate_ConversationRequest_def)
  qed
qed

subsection \<open>Bounds of a conversation\<close>

text \<open>
  Claim C7, as the code has it. A conversation is accepted exactly when it is within
  \<open>within_bounds\<close>: it has between 1 and 50 messages, every message has the role
  \<open>scammer\<close> or \<open>user\<close>, a content of at most 1000 characters as received (the bound is not
  on the trimmed content) that is not empty once trimmed, and the lengths of the trimmed
  contents add up to at most the configured maximum (5000 by default). The accepted
  conversation is the received one with every content trimmed. Otherwise validation
  rejects.
\<close>

theorem validate_ConversationRequest_bounds:
  "(within_bounds cfg conversation \<longrightarrow>
      validate_ConversationRequest cfg conversation
        = Inr (map (\<lambda>m. \<lparr>role = role m, content = strip (content m)\<rparr>) conversation))
   \<and> (\<not> within_bounds cfg conversation \<longrightarrow>
        (\<exists>errs. validate_ConversationRequest cfg conversation = Inl errs))"
  by (rule validate_ConversationRequest_cases)

theorem validate_ConversationRequest_bounds_witness:
  "within_bounds default_config
     [\<lparr>role = ''scammer'', content = ''  Send me your bank info ''\<rparr>, \<lparr>role = ''user'', content = ''ok''\<rparr>]
   \<and> validate_ConversationRequest default_config
     [\<lparr>role = ''scammer'', content = ''  Send me your bank info ''\<rparr>, \<lparr>role = ''user'', content = ''ok''\<rparr>]
      = Inr [\<lparr>role = ''scammer'', content = ''Send me your bank info''\<rparr>, \<lparr>role = ''user'', content = ''ok''\<rparr>]
   \<and> \<not> within_bounds default_config []
   \<and> validate_ConversationRequest default_config [] = Inl [Too_short]"
proof -
  let ?conv = "[\<lparr>role = ''scammer'', content = ''  Send me your bank info ''\<rparr>, \<lparr>role = ''user'', content = ''ok''\<rparr>]"
  have s1: "strip ''  Send me your bank info '' = ''Send me your bank info''"
    by (simp add: strip_def lstrip_def rstrip_def isspace_def whitespace_chars_def)
  have s2: "strip ''ok'' = ''ok''"
    by (simp add: strip_def lstrip_def rstrip_def isspace_def whitespace_chars_def)
  have b: "within_bounds default_config ?conv"
    by (simp add: within_bounds_def s1 s2 default_config_def)
  have nb: "\<not> within_bounds default_config []"
    by (simp add: within_bounds_def)
  have e: "validate_ConversationRequest default_config [] = Inl [Too_short]"
    by (simp add: validate_ConversationRequest_def)
  from validate_ConversationRequest_bounds [of default_config ?conv] b
  have "validate_ConversationRequest default_config ?conv
      = Inr [\<lparr>role = ''scammer'', content = ''Send me your bank info''\<rparr>, \<lparr>role = ''user'', content = ''ok''\<rparr>]"
    by (simp add: s1 s2)
  with b nb e show ?thesis by blast
qed

text \<open>
  The claim as the specification states it, with the bound of 1000 on the trimmed content,
  fails for the one-message conversation whose content is \<open>x\<close> followed by 1000 spaces:
  the trimmed content is \<open>x\<close>, every bound of the claim holds, and validation rejects
  with \<open>String_too_long\<close>.
\<close>

theorem padded_content_rejected_within_bounds:
  "length [\<lparr>role = ''user'', content = CHR ''x'' # replicate 1000 (CHR '' '')\<rparr>] = 1
   \<and> strip (CHR ''x'' # replicate 1000 (CHR '' '')) = ''x''
   \<and> int (length (CHR ''x'' # replicate 1000 (CHR '' ''))) \<le> MAX_CONVERSATION_LENGTH default_config
   \<and> validate_ConversationRequest default_config
        [\<lparr>role = ''user'', content = CHR ''x'' # replicate 1000 (CHR '' '')\<rparr>] = Inl [String_too_long]"
  by (simp add: strip_x_spaces validate_ConversationRequest_def validate_Message_def
      validate_role_def validate_content_def default_config_def)

section \<open>Properties of the classification parse\<close>

lemma is_linebreak_LF [simp]: "is_linebreak (CHR 0x0A)"
  by (simp add: is_linebreak_def linebreak_chars_def)

lemma splitlines_from_line:
  assumes "\<forall>c\<in>set l. \<not> is_linebreak c"
  shows "splitlines_from cur (l @ CHR 0x0A # rest) = (cur @ l) # splitlines_from [] rest"
  using assms by (induction l arbitrary: cur) simp_all

lemma splitlines_from_last:
  assumes "\<forall>c\<in>set l. \<not> is_linebreak c" and "cur @ l \<noteq> []"
  shows "splitlines_from cur l = [cur @ l]"
  using assms by (induction l arbitrary: cur) simp_all

lemma split_from_token:
  assumes "sep \<notin> set t"
  shows "split_from cur sep (t @ sep # rest) = (cur @ t) # split_from [] sep rest"
  using assms by (induction t arbitrary: cur) auto

lemma split_from_last:
  assumes "sep \<notin> set t"
  shows "split_from cur sep t = [cur @ t]"
  using assms by (induction t arbitrary: cur) auto

lemma split_from_not_Nil: "split_from cur sep s \<noteq> []"
  by (induction s arbitrary: cur) auto

lemma split_str_join:
  assumes "\<forall>t\<in>set (tok # toks). sep \<notin> set t"
  shows "split_str (join [sep] (tok # toks)) sep = tok # toks"
  using assms
proof (induction toks arbitrary: tok)
  case Nil
  then show ?case by (simp add: split_str_def split_from_last)
next
  case (Cons t toks)
  from Cons.prems have "sep \<notin> set tok" by simp
  then have "split_str (join [sep] (tok # t # toks)) sep = tok # split_str (join [sep] (t # toks)) sep"
    by (simp add: split_str_def split_from_token)
  also have "split_str (join [sep] (t # toks)) sep = t # toks"
    using Cons.IH [of t] Cons.prems by simp
  finally show ?case .
qed

lemma set_join: "set (join sep (x # xs)) \<subseteq> set sep \<union> \<Union> (set ` set (x # xs))"
  by (induction xs arbitrary: x) auto

lemma classify_email_parse_lines:
  assumes "2 \<le> length (splitlines output)"
  shows "\<exists>first rest. split_str (splitlines output ! 0) (CHR '','') = first # rest
           \<and> classify_email_parse output
               = Inr \<lparr>label = strip first, tags = map strip rest,
                      justification = strip (splitlines output ! 1)\<rparr>"
proof -
  from assms have ne: "output \<noteq> []" by (auto simp: splitlines_def)
  obtain first rest where labels: "split_str (splitlines output ! 0) (CHR '','') = first # rest"
    using split_from_not_Nil [of "[]" "CHR '',''" "splitlines output ! 0"]
    by (cases "split_str (splitlines output ! 0) (CHR '','')") (auto simp: split_str_def)
  have "classify_email_parse output
               = Inr \<lparr>label = strip first, tags = map strip rest,
                      justification = strip (splitlines output ! 1)\<rparr>"
    using assms ne labels by (simp add: classify_email_parse_def Let_def)
  with labels show ?thesis by blast
qed

lemma classify_email_parse_short:
  assumes "length (splitlines output) < 2"
  shows "\<exists>detail. classify_email_parse output = Inl (HTTPException 500 detail)"
  using assms by (simp add: classify_email_parse_def Let_def)


lemma comma_not_linebreak [simp]: "\<not> is_linebreak (CHR '','')"
  by (simp add: is_linebreak_def linebreak_chars_def)

lemma join_no_linebreak:
  assumes "\<forall>t\<in>set (tok # toks). \<forall>c\<in>set t. \<not> is_linebreak c"
  shows "\<forall>c\<in>set (join '','' (tok # toks)). \<not> is_linebreak c"
  using assms set_join [of "'',''" tok toks] by auto

lemma classify_email_parse_two_line_text:
  assumes tokens: "\<forall>t\<in>set (tok # toks). \<forall>c\<in>set t. c \<noteq> CHR '','' \<and> \<not> is_linebreak c"
    and just: "\<forall>c\<in>set just. \<not> is_linebreak c"
    and lines: "splitlines output = join '','' (tok # toks) # just # extra"
  shows "classify_email_parse output
           = Inr \<lparr>label = strip tok, tags = map strip toks, justification = strip just\<rparr>"
proof -
  from lines have "2 \<le> length (splitlines output)" by simp
  from classify_email_parse_lines [OF this] lines
  obtain first rest where labels: "split_str (join '','' (tok # toks)) (CHR '','') = first # rest"
    and parse: "classify_email_parse output
               = Inr \<lparr>label = strip first, tags = map strip rest, justification = strip just\<rparr>"
    by auto
  from tokens have "\<forall>t\<in>set (tok # toks). CHR '','' \<notin> set t" by auto
  from split_str_join [OF this] labels have "first = tok" "rest = toks" by simp_all
  with parse show ?thesis by simp
qed

subsection \<open>The two-line contract\<close>

text \<open>
  Claim C2. For every text returned by the classification backend: when it has fewer than
  two lines the parse fails, with an HTTP exception of status 500; when it has at least two,
  the first line is split at its commas, the label is the first piece trimmed, the tags
  are the other pieces, each trimmed (none when there is no comma), and the justification
  is the second line trimmed. Lines after the second play no part: a text made of comma-free
  pieces joined by commas, a line feed, a justification line and then a line feed followed
  by anything at all parses to those pieces and that justification, as it does without the
  tail. The text \<open>Scam, Urgency, Financial\<close>, line feed,
  \<open>Classic advance-fee fraud pattern.\<close> parses to the label \<open>Scam\<close>, the tags \<open>Urgency\<close>
  and \<open>Financial\<close> and that justification.
\<close>

theorem classify_email_parse_contract:
  "(length (splitlines output) < 2 \<longrightarrow>
      (\<exists>detail. classify_email_parse output = Inl (HTTPException 500 detail)))
   \<and> (2 \<le> length (splitlines output) \<longrightarrow>
      (\<exists>first rest. split_str (splitlines output ! 0) (CHR '','') = first # rest
         \<and> classify_email_parse output
             = Inr \<lparr>label = strip first, tags = map strip rest,
                    justification = strip (splitlines output ! 1)\<rparr>))
   \<and> ((\<forall>t\<in>set (tok # toks). \<forall>c\<in>set t. c \<noteq> CHR '','' \<and> \<not> is_linebreak c)
        \<and> (\<forall>c\<in>set just. \<not> is_linebreak c) \<longrightarrow>
      classify_email_parse (join '','' (tok # toks) @ CHR 0x0A # just @ CHR 0x0A # extra)
        = Inr \<lparr>label = strip tok, tags = map strip toks, justification = strip just\<rparr>
      \<and> (just \<noteq> [] \<longrightarrow>
           classify_email_parse (join '','' (tok # toks) @ CHR 0x0A # just)
             = Inr \<lparr>label = strip tok, tags = map strip toks, justification = strip just\<rparr>))
   \<and> classify_email_parse ''Scam, Urgency, Financial\<newline>Classic advance-fee fraud pattern.''
        = Inr \<lparr>label = ''Scam'', tags = [''Urgency'', ''Financial''],
               justification = ''Classic advance-fee fraud pattern.''\<rparr>"
proof -
  have short: "length (splitlines output) < 2 \<longrightarrow>
      (\<exists>detail. classify_email_parse output = Inl (HTTPException 500 detail))"
    using classify_email_parse_short by blast
  have long: "2 \<le> length (splitlines output) \<longrightarrow>
      (\<exists>first rest. split_str (splitlines output ! 0) (CHR '','') = first # rest
         \<and> classify_email_parse output
             = Inr \<lparr>label = strip first, tags = map strip rest,
                    justification = strip (splitlines output ! 1)\<rparr>)"
    using classify_email_parse_lines by blast
  have shape: "(\<forall>t\<in>set (tok # toks). \<forall>c\<in>set t. c \<noteq> CHR '','' \<and> \<not> is_linebreak c)
        \<and> (\<forall>c\<in>set just. \<not> is_linebreak c) \<longrightarrow>
      classify_email_parse (join '','' (tok # toks) @ CHR 0x0A # just @ CHR 0x0A # extra)
        = Inr \<lparr>label = strip tok, tags = map strip toks, justification = strip just\<rparr>
      \<and> (just \<noteq> [] \<longrightarrow>
           classify_email_parse (join '','' (tok # toks) @ CHR 0x0A # just)
             = Inr \<lparr>label = strip tok, tags = map strip toks, justification = strip just\<rparr>)"
  proof (intro impI, elim conjE)
    assume tokens: "\<forall>t\<in>set (tok # toks). \<forall>c\<in>set t. c \<noteq> CHR '','' \<and> \<not> is_linebreak c"
      and just: "\<forall>c\<in>set just. \<not> is_linebreak c"
    from tokens have "\<forall>t\<in>set (tok # toks). \<forall>c\<in>set t. \<not> is_linebreak c" by auto
    then have first: "\<forall>c\<in>set (join '','' (tok # toks)). \<not> is_linebreak c"
      by (rule join_no_linebreak)
    have l3: "splitlines (join '','' (tok # toks) @ CHR 0x0A # just @ CHR 0x0A # extra)
            = join '','' (tok # toks) # just # splitlines extra"
      unfolding splitlines_def
      by (simp add: splitlines_from_line [OF first] splitlines_from_line [OF just])
    have l2: "just \<noteq> [] \<Longrightarrow> splitlines (join '','' (tok # toks) @ CHR 0x0A # just)
            = join '','' (tok # toks) # just # []"
      unfolding splitlines_def
      by (simp add: splitlines_from_line [OF first] splitlines_from_last [OF just])
    show "classify_email_parse (join '','' (tok # toks) @ CHR 0x0A # just @ CHR 0x0A # extra)
        = Inr \<lparr>label = strip tok, tags = map strip toks, justification = strip just\<rparr>
      \<and> (just \<noteq> [] \<longrightarrow>
           classify_email_parse (join '','' (tok # toks) @ CHR 0x0A # just)
             = Inr \<lparr>label = strip tok, tags = map strip toks, justification = strip just\<rparr>)"
      using classify_email_parse_two_line_text [OF tokens just l3]
        classify_email_parse_two_line_text [OF tokens just l2] by blast
  qed
  have example: "classify_email_parse ''Scam, Urgency, Financial\<newline>Classic advance-fee fraud pattern.''
        = Inr \<lparr>label = ''Scam'', tags = [''Urgency'', ''Financial''],
               justification = ''Classic advance-fee fraud pattern.''\<rparr>"
    by (simp add: classify_email_parse_def splitlines_def split_str_def Let_def is_linebreak_def
        linebreak_chars_def strip_def lstrip_def rstrip_def isspace_def whitespace_chars_def)
  from short long shape example show ?thesis by blast
qed

theorem classify_email_parse_contract_witness:
  "length (splitlines ''Scam'') < 2
   \<and> classify_email_parse ''Scam'' = Inl (HTTPException 500 ''Invalid classification response format'')
   \<and> classify_email_parse (join '','' [''Safe'', '' Newsletter ''] @ CHR 0x0A # '' Plain text. '' @ CHR 0x0A # ''third line'')
        = Inr \<lparr>label = ''Safe'', tags = [''Newsletter''], justification = ''Plain text.''\<rparr>"
proof -
  have short: "length (splitlines ''Scam'') < 2"
    by (simp add: splitlines_def is_linebreak_def linebreak_chars_def)
  have fails: "classify_email_parse ''Scam'' = Inl (HTTPException 500 ''Invalid classification response format'')"
    using classify_email_parse_contract [of "''Scam''" "[]" "[]" "[]" "[]"] short
    by (auto simp: classify_email_parse_def)
  have "classify_email_parse (join '','' [''Safe'', '' Newsletter ''] @ CHR 0x0A # '' Plain text. '' @ CHR 0x0A # ''third line'')
        = Inr \<lparr>label = strip ''Safe'', tags = map strip ['' Newsletter ''], justification = strip '' Plain text. ''\<rparr>"
    using classify_email_parse_contract [of "[]" "''Safe''" "['' Newsletter '']" "'' Plain text. ''" "''third line''"]
    by (simp add: is_linebreak_def linebreak_chars_def)
  then have "classify_email_parse (join '','' [''Safe'', '' Newsletter ''] @ CHR 0x0A # '' Plain text. '' @ CHR 0x0A # ''third line'')
        = Inr \<lparr>label = ''Safe'', tags = [''Newsletter''], justification = ''Plain text.''\<rparr>"
    by (simp add: strip_def lstrip_def rstrip_def isspace_def whitespace_chars_def)
  with short fails show ?thesis by blast
qed

section \<open>Properties of the endpoints\<close>

lemma strip_nonspace_head:
  assumes "\<not> isspace c"
  shows "strip (c # s) \<noteq> []"
proof -
  have "dropWhile isspace (rev s @ [c]) \<noteq> []"
    using assms by (simp add: dropWhile_eq_Nil_conv)
  with assms show ?thesis by (simp add: strip_def lstrip_def rstrip_def)
qed

lemma strip_strip [simp]: "strip (strip s) = strip s"
  using strip_ends [of s] by (rule strip_clean)

lemma clean_reply_strip [simp]: "strip (clean_reply r) = clean_reply r"
  by (simp add: clean_reply_def)

lemma title_roles [simp]: "title ''scammer'' = ''Scammer''" "title ''user'' = ''User''"
  by (simp_all add: title_def is_cased_def upper_char_def lower_char_def ascii_lowercase_def
      ascii_uppercase_def)

lemma join_Cons: "join sep (x # xs) = x @ (if xs = [] then [] else sep @ join sep xs)"
  by (cases xs) simp_all

lemma join_concat: "xs \<noteq> [] \<Longrightarrow> join sep xs @ sep = concat (map (\<lambda>x. x @ sep) xs)"
  by (induction sep xs rule: join.induct) simp_all

lemma conversation_text_lines:
  assumes "conversation \<noteq> []"
    and "\<forall>m\<in>set conversation. role m = ''scammer'' \<or> role m = ''user''"
  shows "conversation_text conversation @ [CHR 0x0A] =
     concat (map (\<lambda>m. (if role m = ''scammer'' then ''Scammer'' else ''User'') @ '': '' @ content m
                        @ [CHR 0x0A]) conversation)"
proof -
  have "map (\<lambda>message. title (role message) @ '': '' @ content message) conversation =
        map (\<lambda>m. (if role m = ''scammer'' then ''Scammer'' else ''User'') @ '': '' @ content m) conversation"
    using assms(2) by (intro map_cong) auto
  then have transcript: "conversation_text conversation =
     join [CHR 0x0A]
       (map (\<lambda>m. (if role m = ''scammer'' then ''Scammer'' else ''User'') @ '': '' @ content m) conversation)"
    unfolding conversation_text_def by (rule arg_cong)
  have "map (\<lambda>m. (if role m = ''scammer'' then ''Scammer'' else ''User'') @ '': '' @ content m)
      conversation \<noteq> []"
    using assms(1) by simp
  then have "join [CHR 0x0A]
       (map (\<lambda>m. (if role m = ''scammer'' then ''Scammer'' else ''User'') @ '': '' @ content m) conversation)
       @ [CHR 0x0A]
     = concat (map (\<lambda>x. x @ [CHR 0x0A])
         (map (\<lambda>m. (if role m = ''scammer'' then ''Scammer'' else ''User'') @ '': '' @ content m)
            conversation))"
    by (rule join_concat)
  also have "\<dots> = concat (map (\<lambda>m. (if role m = ''scammer'' then ''Scammer'' else ''User'') @ '': ''
                        @ content m @ [CHR 0x0A]) conversation)"
    by (simp add: comp_def)
  finally show ?thesis unfolding transcript .
qed

lemma conversation_text_not_blank:
  assumes "conversation \<noteq> []"
    and "\<forall>m\<in>set conversation. role m = ''scammer'' \<or> role m = ''user''"
  shows "conversation_text conversation \<noteq> [] \<and> strip (conversation_text conversation) \<noteq> []"
proof -
  from assms(1) obtain m ms where c: "conversation = m # ms" by (cases conversation) auto
  with assms(2) have "role m = ''scammer'' \<or> role m = ''user''" by simp
  then obtain ch rest where t: "conversation_text conversation = ch # rest" and ch: "\<not> isspace ch"
    unfolding conversation_text_def c
    by (auto simp: join_Cons isspace_def whitespace_chars_def)
  from strip_nonspace_head [OF ch, of rest] t show ?thesis by simp
qed


lemma validate_ConversationRequest_Inr:
  assumes "validate_ConversationRequest cfg b = Inr conversation"
  shows "conversation = map (\<lambda>m. \<lparr>role = role m, content = strip (content m)\<rparr>) b"
    and "conversation \<noteq> []"
    and "\<forall>m\<in>set conversation. role m = ''scammer'' \<or> role m = ''user''"
proof -
  from assms validate_ConversationRequest_cases [of cfg b]
  have b: "within_bounds cfg b"
    and c: "conversation = map (\<lambda>m. \<lparr>role = role m, content = strip (content m)\<rparr>) b"
    by auto
  show "conversation = map (\<lambda>m. \<lparr>role = role m, content = strip (content m)\<rparr>) b" by (rule c)
  from b show "conversation \<noteq> []" unfolding c within_bounds_def by auto
  from b show "\<forall>m\<in>set conversation. role m = ''scammer'' \<or> role m = ''user''"
    unfolding c within_bounds_def by (auto simp: list_all_iff)
qed

lemma conversation_text_display:
  assumes "\<forall>m\<in>set conversation. role m = ''scammer'' \<or> role m = ''user''"
  shows "conversation_text conversation =
     join [CHR 0x0A] (map (\<lambda>m. (if role m = ''scammer'' then ''Scammer'' else ''User'') @ '': '' @ content m)
        conversation)"
proof -
  have "map (\<lambda>message. title (role message) @ '': '' @ content message) conversation =
        map (\<lambda>m. (if role m = ''scammer'' then ''Scammer'' else ''User'') @ '': '' @ content m) conversation"
    using assms by (intro map_cong) auto
  then show ?thesis unfolding conversation_text_def by (rule arg_cong)
qed

lemma api_generate_reply_admitted:
  assumes "credentials req = API_KEY cfg"
    and "fst (is_allowed cfg now (requests w) (client_host (client req)))"
    and "validate_ConversationRequest cfg (body req) = Inr conversation"
  shows "api_generate_reply cfg api now req w =
           generate_reply_api api conversation
             (w\<lparr>requests := snd (is_allowed cfg now (requests w) (client_host (client req)))\<rparr>)"
proof -
  obtain ok rl where step: "is_allowed cfg now (requests w) (client_host (client req)) = (ok, rl)"
    by (cases "is_allowed cfg now (requests w) (client_host (client req))")
  with assms(2) have ok by simp
  with step assms(1,3) show ?thesis
    by (simp add: api_generate_reply_def dispatch_def verify_api_key_def check_rate_limit_def)
qed

lemma generate_reply_api_try_reply:
  assumes "conversation \<noteq> []"
    and "\<forall>m\<in>set conversation. role m = ''scammer'' \<or> role m = ''user''"
    and "api (conversation_text conversation) = Inr raw"
  shows "generate_reply_api_try api conversation =
     (if clean_reply raw = [] then Inl (HTTPException 500 ''Failed to generate reply'')
      else Inr \<lparr>reply = clean_reply raw,
                conversation_length = length (conversation_text conversation)\<rparr>)"
  using conversation_text_not_blank [OF assms(1,2)] assms(3)
  by (simp add: generate_reply_api_try_def generate_reply_def)

text \<open>The definitions that evaluating a route on a concrete request unfolds.\<close>

lemmas eval_defs =
  api_classify_def api_generate_reply_def dispatch_def verify_api_key_def check_rate_limit_def
  client_host_def is_allowed_def requests_of_def timedelta_seconds_def default_config_def Let_def
  validate_EmailInput_def text_must_not_be_empty_def validate_ConversationRequest_def
  validate_conversation_length_def validate_Message_def validate_role_def validate_content_def
  content_must_not_be_empty_def strip_def lstrip_def rstrip_def isspace_def whitespace_chars_def
  generate_reply_api_def generate_reply_api_try_def generate_reply_def clean_reply_def
  startswith_def conversation_text_def

subsection \<open>The transcript and its length\<close>

text \<open>
  Claim C8. For every request to generate a reply that passes the credential check, the
  rate limiter and validation: the transcript is the validated messages, in their order,
  each rendered as its role in display casing (\<open>Scammer\<close> or \<open>User\<close>), a colon, a space
  and its content, joined by line feeds, so that the transcript followed by one more line
  feed is the concatenation, in the order of the messages, of the rendered lines each
  followed by a line feed; the backend client is called once, with that transcript; and
  whenever a response is returned, its \<open>conversation_length\<close> is the number of characters
  of the transcript. For the single message of role \<open>scammer\<close> and content
  \<open>Send me your bank info\<close> the transcript is \<open>Scammer: Send me your bank info\<close>; for
  the three messages \<open>Hi\<close> of the scammer, \<open>Who is this?\<close> of the user and \<open>Your bank\<close>
  of the scammer it is those three lines in that order, with a line feed between each two.
\<close>

theorem transcript_and_conversation_length:
  assumes "credentials req = API_KEY cfg"
    and "fst (is_allowed cfg now (requests w) (client_host (client req)))"
    and "validate_ConversationRequest cfg (body req) = Inr conversation"
  shows "conversation_text conversation =
           join [CHR 0x0A]
             (map (\<lambda>m. (if role m = ''scammer'' then ''Scammer'' else ''User'') @ '': '' @ content m)
                conversation)
       \<and> conversation_text conversation @ [CHR 0x0A] =
           concat (map (\<lambda>m. (if role m = ''scammer'' then ''Scammer'' else ''User'') @ '': ''
                              @ content m @ [CHR 0x0A]) conversation)
       \<and> backend_calls (snd (api_generate_reply cfg api now req w))
           = backend_calls w @ [conversation_text conversation]
       \<and> (\<forall>response. fst (api_generate_reply cfg api now req w) = Inr response \<longrightarrow>
             conversation_length response = length (conversation_text conversation))
       \<and> conversation_text [\<lparr>role = ''scammer'', content = ''Send me your bank info''\<rparr>]
           = ''Scammer: Send me your bank info''
       \<and> conversation_text [\<lparr>role = ''scammer'', content = ''Hi''\<rparr>,
                            \<lparr>role = ''user'', content = ''Who is this?''\<rparr>,
                            \<lparr>role = ''scammer'', content = ''Your bank''\<rparr>]
           = ''Scammer: Hi'' @ [CHR 0x0A] @ ''User: Who is this?'' @ [CHR 0x0A] @ ''Scammer: Your bank''
       \<and> join [CHR 0x0A] [''a'', ''bc'', ''d''] = [CHR ''a'', CHR 0x0A, CHR ''b'', CHR ''c'', CHR 0x0A, CHR ''d'']"
proof -
  note valid = validate_ConversationRequest_Inr [OF assms(3)]
  have display: "conversation_text conversation =
           join [CHR 0x0A]
             (map (\<lambda>m. (if role m = ''scammer'' then ''Scammer'' else ''User'') @ '': '' @ content m)
                conversation)"
    using valid(3) by (rule conversation_text_display)
  have lines: "conversation_text conversation @ [CHR 0x0A] =
           concat (map (\<lambda>m. (if role m = ''scammer'' then ''Scammer'' else ''User'') @ '': ''
                              @ content m @ [CHR 0x0A]) conversation)"
    using valid(2,3) by (rule conversation_text_lines)
  have calls: "backend_calls (snd (api_generate_reply cfg api now req w))
           = backend_calls w @ [conversation_text conversation]"
    unfolding api_generate_reply_admitted [OF assms] by (simp add: generate_reply_api_def)
  have len: "\<forall>response. fst (api_generate_reply cfg api now req w) = Inr response \<longrightarrow>
             conversation_length response = length (conversation_text conversation)"
    unfolding api_generate_reply_admitted [OF assms]
    by (auto simp: generate_reply_api_def generate_reply_api_try_def split: sum.splits if_splits)
  have example: "conversation_text [\<lparr>role = ''scammer'', content = ''Send me your bank info''\<rparr>]
           = ''Scammer: Send me your bank info''"
    by (simp add: conversation_text_def)
  have three: "conversation_text [\<lparr>role = ''scammer'', content = ''Hi''\<rparr>,
                            \<lparr>role = ''user'', content = ''Who is this?''\<rparr>,
                            \<lparr>role = ''scammer'', content = ''Your bank''\<rparr>]
           = ''Scammer: Hi'' @ [CHR 0x0A] @ ''User: Who is this?'' @ [CHR 0x0A] @ ''Scammer: Your bank''"
    by (simp add: conversation_text_def)
  have joined: "join [CHR 0x0A] [''a'', ''bc'', ''d''] = [CHR ''a'', CHR 0x0A, CHR ''b'', CHR ''c'', CHR 0x0A, CHR ''d'']"
    by simp
  from display lines calls len example three joined show ?thesis by blast
qed

theorem transcript_and_conversation_length_witness:
  "credentials \<lparr>credentials = ''your-secure-api-key-here'', client = Some ''10.0.0.1'',
                 body = [\<lparr>role = ''scammer'', content = '' Send me your bank info''\<rparr>,
                         \<lparr>role = ''user'', content = ''Why? ''\<rparr>]\<rparr>
     = API_KEY default_config
   \<and> fst (is_allowed default_config 0 Map.empty (client_host (Some ''10.0.0.1'')))
   \<and> validate_ConversationRequest default_config
         [\<lparr>role = ''scammer'', content = '' Send me your bank info''\<rparr>,
          \<lparr>role = ''user'', content = ''Why? ''\<rparr>]
       = Inr [\<lparr>role = ''scammer'', content = ''Send me your bank info''\<rparr>,
              \<lparr>role = ''user'', content = ''Why?''\<rparr>]
   \<and> backend_calls (snd (api_generate_reply default_config (\<lambda>_. Inr ''User: I don't have online banking'') 0
         \<lparr>credentials = ''your-secure-api-key-here'', client = Some ''10.0.0.1'',
          body = [\<lparr>role = ''scammer'', content = '' Send me your bank info''\<rparr>,
                  \<lparr>role = ''user'', content = ''Why? ''\<rparr>]\<rparr>
         \<lparr>requests = Map.empty, backend_calls = []\<rparr>))
       = [''Scammer: Send me your bank info'' @ [CHR 0x0A] @ ''User: Why?'']
   \<and> fst (api_generate_reply default_config (\<lambda>_. Inr ''User: I don't have online banking'') 0
         \<lparr>credentials = ''your-secure-api-key-here'', client = Some ''10.0.0.1'',
          body = [\<lparr>role = ''scammer'', content = '' Send me your bank info''\<rparr>,
                  \<lparr>role = ''user'', content = ''Why? ''\<rparr>]\<rparr>
         \<lparr>requests = Map.empty, backend_calls = []\<rparr>)
       = Inr \<lparr>reply = ''I don't have online banking'', conversation_length = 42\<rparr>"
proof -
  let ?raw = "[\<lparr>role = ''scammer'', content = '' Send me your bank info''\<rparr>,
               \<lparr>role = ''user'', content = ''Why? ''\<rparr>]"
  let ?conv = "[\<lparr>role = ''scammer'', content = ''Send me your bank info''\<rparr>,
                \<lparr>role = ''user'', content = ''Why?''\<rparr>]"
  let ?req = "\<lparr>credentials = ''your-secure-api-key-here'', client = Some ''10.0.0.1'', body = ?raw\<rparr>"
  let ?w = "\<lparr>requests = Map.empty, backend_calls = []\<rparr>"
  let ?api = "\<lambda>_::string. Inr ''User: I don't have online banking'' :: string + string"
  have key: "credentials ?req = API_KEY default_config" by (simp add: default_config_def)
  have adm: "fst (is_allowed default_config 0 (requests ?w) (client_host (client ?req)))"
    by (simp add: eval_defs)
  have val: "validate_ConversationRequest default_config (body ?req) = Inr ?conv"
    by (simp add: eval_defs)
  have res: "fst (api_generate_reply default_config ?api 0 ?req ?w)
       = Inr \<lparr>reply = ''I don't have online banking'',
              conversation_length = length (conversation_text ?conv)\<rparr>"
    by (simp add: eval_defs)
  from transcript_and_conversation_length [OF key adm val, of ?api]
  have "backend_calls (snd (api_generate_reply default_config ?api 0 ?req ?w))
          = [''Scammer: Send me your bank info'' @ [CHR 0x0A] @ ''User: Why?'']"
    and "conversation_length \<lparr>reply = ''I don't have online banking'',
              conversation_length = length (conversation_text ?conv)\<rparr> = 42"
    using res by simp_all
  with key adm val res show ?thesis by simp
qed

subsection \<open>Empty replies\<close>

text \<open>
  Claim C9. For every request to generate a reply that passes the credential check, the
  rate limiter and validation, and every text \<open>raw\<close> that the chat model returns for its
  transcript: if the cleaned text \<open>clean_reply raw\<close> is empty, the \<open>try\<close> block raises the
  \<open>HTTPException\<close> 500 \<open>Failed to generate reply\<close> and the route answers with status 500;
  if it is not empty, the route answers 200 with the cleaned text as reply and the length
  of the transcript as \<open>conversation_length\<close>.
\<close>

theorem reply_returned_iff_nonempty:
  assumes "credentials req = API_KEY cfg"
    and "fst (is_allowed cfg now (requests w) (client_host (client req)))"
    and "validate_ConversationRequest cfg (body req) = Inr conversation"
    and "api (conversation_text conversation) = Inr raw"
  shows "generate_reply_api_try api conversation =
           (if clean_reply raw = [] then Inl (HTTPException 500 ''Failed to generate reply'')
            else Inr \<lparr>reply = clean_reply raw,
                      conversation_length = length (conversation_text conversation)\<rparr>)
       \<and> fst (api_generate_reply cfg api now req w) =
           (if clean_reply raw = []
            then Inl (HTTPException 500 ''Failed to process reply generation request'')
            else Inr \<lparr>reply = clean_reply raw,
                      conversation_length = length (conversation_text conversation)\<rparr>)
       \<and> status_code (fst (api_generate_reply cfg api now req w))
           = (if clean_reply raw = [] then 500 else 200)"
proof -
  note valid = validate_ConversationRequest_Inr [OF assms(3)]
  have body: "generate_reply_api_try api conversation =
           (if clean_reply raw = [] then Inl (HTTPException 500 ''Failed to generate reply'')
            else Inr \<lparr>reply = clean_reply raw,
                      conversation_length = length (conversation_text conversation)\<rparr>)"
    using valid(2,3) assms(4) by (rule generate_reply_api_try_reply)
  have route: "fst (api_generate_reply cfg api now req w) =
           (if clean_reply raw = []
            then Inl (HTTPException 500 ''Failed to process reply generation request'')
            else Inr \<lparr>reply = clean_reply raw,
                      conversation_length = length (conversation_text conversation)\<rparr>)"
    unfolding api_generate_reply_admitted [OF assms(1,2,3)]
    by (simp add: generate_reply_api_def body)
  from body route show ?thesis by simp
qed

theorem reply_returned_iff_nonempty_witness:
  "fst (api_generate_reply default_config (\<lambda>_. Inr ''User:   '') 0
         \<lparr>credentials = ''your-secure-api-key-here'', client = Some ''10.0.0.1'',
          body = [\<lparr>role = ''scammer'', content = ''Send me your bank info''\<rparr>]\<rparr>
         \<lparr>requests = Map.empty, backend_calls = []\<rparr>)
       = Inl (HTTPException 500 ''Failed to process reply generation request'')
   \<and> fst (api_generate_reply default_config (\<lambda>_. Inr ''User: I don't have online banking'') 0
         \<lparr>credentials = ''your-secure-api-key-here'', client = Some ''10.0.0.1'',
          body = [\<lparr>role = ''scammer'', content = ''Send me your bank info''\<rparr>]\<rparr>
         \<lparr>requests = Map.empty, backend_calls = []\<rparr>)
       = Inr \<lparr>reply = ''I don't have online banking'', conversation_length = 31\<rparr>"
proof -
  let ?conv = "[\<lparr>role = ''scammer'', content = ''Send me your bank info''\<rparr>]"
  let ?req = "\<lparr>credentials = ''your-secure-api-key-here'', client = Some ''10.0.0.1'', body = ?conv\<rparr>"
  let ?w = "\<lparr>requests = Map.empty, backend_calls = []\<rparr>"
  let ?empty = "\<lambda>_::string. Inr ''User:   '' :: string + string"
  let ?api = "\<lambda>_::string. Inr ''User: I don't have online banking'' :: string + string"
  have key: "credentials ?req = API_KEY default_config" by (simp add: default_config_def)
  have adm: "fst (is_allowed default_config 0 (requests ?w) (client_host (client ?req)))"
    by (simp add: eval_defs)
  have val: "validate_ConversationRequest default_config (body ?req) = Inr ?conv"
    by (simp add: eval_defs)
  have transcript: "conversation_text ?conv = ''Scammer: Send me your bank info''"
    by (simp add: conversation_text_def)
  have c1: "clean_reply ''User:   '' = []"
    by (simp add: eval_defs)
  have c2: "clean_reply ''User: I don't have online banking'' = ''I don't have online banking''"
    by (simp add: eval_defs)
  from reply_returned_iff_nonempty [OF key adm val, of ?empty "''User:   ''"]
  have r1: "fst (api_generate_reply default_config ?empty 0 ?req ?w)
       = Inl (HTTPException 500 ''Failed to process reply generation request'')"
    by (simp add: c1)
  from reply_returned_iff_nonempty [OF key adm val, of ?api "''User: I don't have online banking''"]
  have r2: "fst (api_generate_reply default_config ?api 0 ?req ?w)
       = Inr \<lparr>reply = ''I don't have online banking'', conversation_length = 31\<rparr>"
    by (simp add: c2 transcript)
  from r1 r2 show ?thesis by simp
qed

subsection \<open>Failures before the backend\<close>

text \<open>
  Claim C6. On either route, for every request, time and state: if the credential is not
  the configured key, or the rate limiter does not admit the client, or the body fails
  validation, then the log of backend calls is left as it was, so no backend client is
  called, and the answer has status 401, 429 or 422, a client error and not a server
  error.
\<close>

theorem failures_never_reach_backend:
  "(credentials req \<noteq> API_KEY cfg
      \<or> \<not> fst (is_allowed cfg now (requests w) (client_host (client req)))
      \<or> isl (validate_EmailInput cfg (body req)) \<longrightarrow>
        backend_calls (snd (api_classify cfg api now req w)) = backend_calls w
        \<and> status_code (fst (api_classify cfg api now req w)) \<in> {401, 429, 422}
        \<and> 400 \<le> status_code (fst (api_classify cfg api now req w))
        \<and> status_code (fst (api_classify cfg api now req w)) < 500)
   \<and> (credentials creq \<noteq> API_KEY cfg
      \<or> \<not> fst (is_allowed cfg now (requests w) (client_host (client creq)))
      \<or> isl (validate_ConversationRequest cfg (body creq)) \<longrightarrow>
        backend_calls (snd (api_generate_reply cfg api now creq w)) = backend_calls w
        \<and> status_code (fst (api_generate_reply cfg api now creq w)) \<in> {401, 429, 422}
        \<and> 400 \<le> status_code (fst (api_generate_reply cfg api now creq w))
        \<and> status_code (fst (api_generate_reply cfg api now creq w)) < 500)"
  by (auto simp: api_classify_def api_generate_reply_def dispatch_def verify_api_key_def
      check_rate_limit_def isl_def split: prod.splits sum.splits)


theorem failures_never_reach_backend_witness:
  "credentials \<lparr>credentials = ''guess'', client = Some ''10.0.0.1'', body = ''You won''\<rparr>
      \<noteq> API_KEY default_config
   \<and> snd (api_classify default_config (\<lambda>_. Inr ''Scam'') 0
         \<lparr>credentials = ''guess'', client = Some ''10.0.0.1'', body = ''You won''\<rparr>
         \<lparr>requests = Map.empty, backend_calls = []\<rparr>)
       = \<lparr>requests = Map.empty, backend_calls = []\<rparr>
   \<and> status_code (fst (api_classify default_config (\<lambda>_. Inr ''Scam'') 0
         \<lparr>credentials = ''guess'', client = Some ''10.0.0.1'', body = ''You won''\<rparr>
         \<lparr>requests = Map.empty, backend_calls = []\<rparr>)) = 401
   \<and> isl (validate_ConversationRequest default_config [])
   \<and> backend_calls (snd (api_generate_reply default_config (\<lambda>_. Inr ''ok'') 0
         \<lparr>credentials = ''your-secure-api-key-here'', client = None, body = []\<rparr>
         \<lparr>requests = Map.empty, backend_calls = []\<rparr>)) = []
   \<and> status_code (fst (api_generate_reply default_config (\<lambda>_. Inr ''ok'') 0
         \<lparr>credentials = ''your-secure-api-key-here'', client = None, body = []\<rparr>
         \<lparr>requests = Map.empty, backend_calls = []\<rparr>)) = 422"
  using failures_never_reach_backend [of "\<lparr>credentials = ''guess'', client = Some ''10.0.0.1'', body = ''You won''\<rparr>"
      default_config 0 "\<lparr>requests = Map.empty, backend_calls = []\<rparr>" "\<lambda>_. Inr ''Scam''"
      "\<lparr>credentials = ''your-secure-api-key-here'', client = None, body = []\<rparr>"]
  by (simp add: eval_defs)

end
